theory Spec2Isabelle
  imports Complex_Main
begin

section \<open>Data model (src/types.ts)\<close>

text \<open>
  JavaScript numbers are modelled as reals: the finite, non-NaN values. Timestamps are
  milliseconds since the epoch. The capacity of the working memory is a count and is an
  integer, of any sign. Wall-clock readings that only feed log lines or the
  \<^verbatim>\<open>lastProcessed\<close>, \<^verbatim>\<open>lastUpdated\<close> and \<^verbatim>\<open>avgAccessTime\<close> fields are left out.
\<close>

datatype SensoryInputType = ReadText | HearText | FeelText | SmellText | TasteText

record EmotionalQuadrant =
  joy :: real
  calm :: real
  anger :: real
  sadness :: real

record Fact =
  fact_id :: string
  content :: string
  source :: SensoryInputType
  timestamp :: real
  embedding :: "real list"
  emotionalImpact :: EmotionalQuadrant
  weight :: real

text \<open>
  Facts are JavaScript objects: the buffer and the id map hold references to them, and
  \<^verbatim>\<open>consolidate\<close> writes to the objects in place. An object reference is a
  natural number and the object store maps references to the objects' current fields.
\<close>

type_synonym ref = nat

datatype EvictionStrategy = Lru | ByWeight

record WorkingMemoryMetrics =
  hits :: nat
  misses :: nat
  evictions :: nat

record LRUWorkingMemory =
  heap :: "ref \<Rightarrow> Fact"
  factMap :: "string \<rightharpoonup> ref"
  facts :: "ref list"
  maxSize :: int
  evictionStrategy :: EvictionStrategy
  evictionThreshold :: real
  metrics :: WorkingMemoryMetrics

datatype wm_error = InvalidItem | FactNotFound

section \<open>Working memory (implementations/working-memory.js, base class in interfaces/memory.js)\<close>

text \<open>The constructor: an empty buffer and an empty id map over the given object store.\<close>

definition newWorkingMemory ::
  "(ref \<Rightarrow> Fact) \<Rightarrow> int \<Rightarrow> EvictionStrategy \<Rightarrow> real \<Rightarrow> LRUWorkingMemory" where
  "newWorkingMemory h capacity strategy threshold =
     \<lparr> heap = h, factMap = Map.empty, facts = [], maxSize = capacity,
       evictionStrategy = strategy, evictionThreshold = threshold,
       metrics = \<lparr> hits = 0, misses = 0, evictions = 0 \<rparr> \<rparr>"

text \<open>\<^verbatim>\<open>updateMetrics(accessTime, isHit)\<close> of the base class, without the access-time average.\<close>

definition updateMetrics :: "bool \<Rightarrow> LRUWorkingMemory \<Rightarrow> LRUWorkingMemory" where
  "updateMetrics isHit s =
     (if isHit then s\<lparr> metrics := (metrics s)\<lparr> hits := hits (metrics s) + 1 \<rparr> \<rparr>
      else s\<lparr> metrics := (metrics s)\<lparr> misses := misses (metrics s) + 1 \<rparr> \<rparr>)"

definition countEviction :: "LRUWorkingMemory \<Rightarrow> LRUWorkingMemory" where
  "countEviction s = s\<lparr> metrics := (metrics s)\<lparr> evictions := evictions (metrics s) + 1 \<rparr> \<rparr>"

text \<open>\<^verbatim>\<open>getFacts\<close> returns a copy of the array holding the same object references.\<close>

definition getFacts :: "LRUWorkingMemory \<Rightarrow> ref list" where
  "getFacts s = facts s"

text \<open>\<^verbatim>\<open>retrieve(id)\<close>: the map entry, counted as a hit or a miss.\<close>

definition retrieve :: "LRUWorkingMemory \<Rightarrow> string \<Rightarrow> ref option \<times> LRUWorkingMemory" where
  "retrieve s k = (factMap s k, updateMetrics (factMap s k \<noteq> None) s)"

text \<open>\<^verbatim>\<open>evictOldest\<close>: \<^verbatim>\<open>shift()\<close> the front element and delete its id from the map.\<close>

definition evictOldest :: "LRUWorkingMemory \<Rightarrow> LRUWorkingMemory" where
  "evictOldest s =
     (case facts s of
        [] \<Rightarrow> s
      | evicted # rest \<Rightarrow>
          countEviction (s\<lparr> facts := rest,
                           factMap := (factMap s)(fact_id (heap s evicted) := None) \<rparr>))"

text \<open>
  The scan of \<^verbatim>\<open>evictByWeight\<close>: \<^verbatim>\<open>minWeightIndex\<close> starts at 0 and moves to \<open>i\<close>
  whenever element \<open>i\<close> is strictly lighter than the current minimum, for \<open>i\<close> from 1.
\<close>

definition minWeightStep :: "(ref \<Rightarrow> Fact) \<Rightarrow> ref list \<Rightarrow> nat \<Rightarrow> nat \<Rightarrow> nat" where
  "minWeightStep h fs m i = (if weight (h (fs ! i)) < weight (h (fs ! m)) then i else m)"

definition minWeightIndex :: "(ref \<Rightarrow> Fact) \<Rightarrow> ref list \<Rightarrow> nat" where
  "minWeightIndex h fs = foldl (minWeightStep h fs) 0 [1 ..< length fs]"

text \<open>\<^verbatim>\<open>splice(i, 1)\<close>: the array without the element at index \<open>i\<close>.\<close>

definition splice1 :: "nat \<Rightarrow> 'a list \<Rightarrow> 'a list" where
  "splice1 i xs = take i xs @ drop (Suc i) xs"

definition evictByWeight :: "LRUWorkingMemory \<Rightarrow> LRUWorkingMemory" where
  "evictByWeight s =
     (if length (facts s) > 0 then
        (let i = minWeightIndex (heap s) (facts s);
             evicted = facts s ! i
         in countEviction (s\<lparr> facts := splice1 i (facts s),
                              factMap := (factMap s)(fact_id (heap s evicted) := None) \<rparr>))
      else s)"

text \<open>The eviction that \<^verbatim>\<open>addFact\<close> runs when the buffer is full.\<close>

definition evict :: "LRUWorkingMemory \<Rightarrow> LRUWorkingMemory" where
  "evict s = (if evictionStrategy s = Lru then evictOldest s else evictByWeight s)"

definition pushFact :: "ref \<Rightarrow> LRUWorkingMemory \<Rightarrow> LRUWorkingMemory" where
  "pushFact r s =
     updateMetrics True
       (s\<lparr> factMap := (factMap s)(fact_id (heap s r) \<mapsto> r), facts := facts s @ [r] \<rparr>)"

definition addFact :: "LRUWorkingMemory \<Rightarrow> ref \<Rightarrow> LRUWorkingMemory" where
  "addFact s r =
     pushFact r (if int (length (facts s)) \<ge> maxSize s then evict s else s)"

text \<open>
  \<^verbatim>\<open>store(item)\<close>: \<^verbatim>\<open>validateItem\<close> of the base class rejects \<^verbatim>\<open>null\<close> and
  \<^verbatim>\<open>undefined\<close>, the item \<open>None\<close>; any other item is added.
\<close>

definition store :: "LRUWorkingMemory \<Rightarrow> ref option \<Rightarrow> wm_error option \<times> LRUWorkingMemory" where
  "store s item =
     (case item of
        None \<Rightarrow> (Some InvalidItem, s)
      | Some fct \<Rightarrow> (None, addFact s fct))"

text \<open>\<^verbatim>\<open>Array.prototype.findIndex\<close>: the first index whose element satisfies the test.\<close>

fun findIndex :: "('a \<Rightarrow> bool) \<Rightarrow> 'a list \<Rightarrow> nat option" where
  "findIndex P [] = None"
| "findIndex P (x # xs) = (if P x then Some 0 else map_option Suc (findIndex P xs))"

text \<open>
  \<^verbatim>\<open>update(id, item)\<close>: replaces the map entry and the first buffer element with that id;
  under the recency strategy the element moves to the end. An unknown id is counted as a
  miss and raises.
\<close>

definition update ::
  "LRUWorkingMemory \<Rightarrow> string \<Rightarrow> ref option \<Rightarrow> wm_error option \<times> LRUWorkingMemory" where
  "update s k item =
     (case item of
        None \<Rightarrow> (Some InvalidItem, s)
      | Some fct \<Rightarrow>
          if factMap s k \<noteq> None then
            (let s1 = s\<lparr> factMap := (factMap s)(k \<mapsto> fct) \<rparr>;
                 s2 = (case findIndex (\<lambda>f. fact_id (heap s f) = k) (facts s) of
                         None \<Rightarrow> s1
                       | Some index \<Rightarrow>
                           (let fs = (facts s)[index := fct]
                            in if evictionStrategy s = Lru
                               then s1\<lparr> facts := splice1 index fs @ [fct] \<rparr>
                               else s1\<lparr> facts := fs \<rparr>))
             in (None, updateMetrics True s2))
          else (Some FactNotFound, updateMetrics False s))"

definition delete :: "LRUWorkingMemory \<Rightarrow> string \<Rightarrow> LRUWorkingMemory" where
  "delete s k =
     updateMetrics (factMap s k \<noteq> None)
       (s\<lparr> factMap := (factMap s)(k := None),
           facts := filter (\<lambda>f. fact_id (heap s f) \<noteq> k) (facts s) \<rparr>)"

definition clear :: "LRUWorkingMemory \<Rightarrow> LRUWorkingMemory" where
  "clear s = s\<lparr> factMap := Map.empty, facts := [] \<rparr>"


text \<open>\<^verbatim>\<open>Math.max(...xs)\<close>; of no arguments it is \<^verbatim>\<open>-Infinity\<close>, modelled as \<open>None\<close>.\<close>

definition math_max :: "real list \<Rightarrow> real option" where
  "math_max xs = (case xs of [] \<Rightarrow> None | x # ys \<Rightarrow> Some (foldl max x ys))"

text \<open>
  One round of the \<^verbatim>\<open>forEach\<close> in \<^verbatim>\<open>consolidate\<close>: the object behind the reference
  gets its weight divided, in place, and is set again in the id map.
\<close>

definition normalizeStep :: "real \<Rightarrow> LRUWorkingMemory \<Rightarrow> ref \<Rightarrow> LRUWorkingMemory" where
  "normalizeStep maxWeight s fct =
     s\<lparr> heap := (heap s)(fct := (heap s fct)\<lparr> weight := weight (heap s fct) / maxWeight \<rparr>),
        factMap := (factMap s)(fact_id (heap s fct) \<mapsto> fct) \<rparr>"

definition consolidate :: "LRUWorkingMemory \<Rightarrow> LRUWorkingMemory" where
  "consolidate s =
     (case math_max (map (\<lambda>f. weight (heap s f)) (facts s)) of
        None \<Rightarrow> s
      | Some maxWeight \<Rightarrow>
          if maxWeight > 0 then foldl (normalizeStep maxWeight) s (facts s) else s)"

section \<open>Emotional state\<close>

subsection \<open>EmotionalService (services/emotional.ts)\<close>

record EmotionalState =
  quadrant :: EmotionalQuadrant
  intensity :: real

text \<open>The state the constructor sets.\<close>

definition newEmotionalState :: EmotionalState where
  "newEmotionalState = \<lparr> quadrant = \<lparr> joy = 0, calm = 0, anger = 0, sadness = 0 \<rparr>, intensity = 0 \<rparr>"

text \<open>
  \<open>StoreFailed\<close> is the error that \<^verbatim>\<open>DatabaseService.updateEmotionalState\<close> throws;
  \<open>InvalidStoreItem\<close> is the \<^verbatim>\<open>Error('Invalid item provided to store')\<close> of the
  emotional memory.
\<close>

datatype store_error = StoreFailed | InvalidStoreItem

definition svc_clampValue :: "real \<Rightarrow> real" where
  "svc_clampValue v = max (-1) (min 1 v)"

definition svc_calculateIntensity :: "EmotionalQuadrant \<Rightarrow> real" where
  "svc_calculateIntensity q = sqrt ((joy q)\<^sup>2 + (calm q)\<^sup>2 + (anger q)\<^sup>2 + (sadness q)\<^sup>2)"

text \<open>\<^verbatim>\<open>calculateNewState(impact)\<close> reads the current state and returns the new one.\<close>

definition calculateNewState :: "EmotionalState \<Rightarrow> EmotionalQuadrant \<Rightarrow> EmotionalState" where
  "calculateNewState currentState impact =
     (let newQuadrant =
        \<lparr> joy = svc_clampValue (joy (quadrant currentState) + joy impact),
          calm = svc_clampValue (calm (quadrant currentState) + calm impact),
          anger = svc_clampValue (anger (quadrant currentState) + anger impact),
          sadness = svc_clampValue (sadness (quadrant currentState) + sadness impact) \<rparr>
      in \<lparr> quadrant = newQuadrant, intensity = svc_calculateIntensity newQuadrant \<rparr>)"

text \<open>
  \<^verbatim>\<open>processFact\<close> for a fact that carries its emotional impact: the new state becomes
  current only after the database call has succeeded (\<open>dbOk\<close>).
\<close>

definition processFact ::
  "bool \<Rightarrow> EmotionalState \<Rightarrow> EmotionalQuadrant \<Rightarrow> store_error option \<times> EmotionalState" where
  "processFact dbOk currentState impact =
     (let newState = calculateNewState currentState impact
      in if dbOk then (None, newState) else (Some StoreFailed, currentState))"

text \<open>
  \<^verbatim>\<open>applyEmotionalDecay(decayRate)\<close> hands the decayed quadrant to
  \<^verbatim>\<open>calculateNewState\<close>, which adds it to the current quadrant and clamps.
\<close>

definition applyEmotionalDecay :: "EmotionalState \<Rightarrow> real \<Rightarrow> EmotionalState" where
  "applyEmotionalDecay currentState decayRate =
     (let decayedQuadrant =
        \<lparr> joy = joy (quadrant currentState) * (1 - decayRate),
          calm = calm (quadrant currentState) * (1 - decayRate),
          anger = anger (quadrant currentState) * (1 - decayRate),
          sadness = sadness (quadrant currentState) * (1 - decayRate) \<rparr>
      in calculateNewState currentState decayedQuadrant)"

subsection \<open>SupabaseEmotionalMemory (implementations/emotional-memory.ts)\<close>

text \<open>\<^verbatim>\<open>config.emotional\<close> of config.js.\<close>

definition maxQuadrantValue :: real where "maxQuadrantValue = 1"
definition minQuadrantValue :: real where "minQuadrantValue = -1"

text \<open>
  The object's state is \<^verbatim>\<open>currentState\<close>; \<open>emotional_states\<close> is the remote table that
  \<^verbatim>\<open>store\<close> inserts into, a row being a quadrant and its intensity.
\<close>

record SupabaseEmotionalMemory =
  currentState :: EmotionalQuadrant
  emotional_states :: "(EmotionalQuadrant \<times> real) list"

definition newEmotionalMemory :: SupabaseEmotionalMemory where
  "newEmotionalMemory =
     \<lparr> currentState = \<lparr> joy = 0, calm = 0, anger = 0, sadness = 0 \<rparr>, emotional_states = [] \<rparr>"

definition mem_clampValue :: "real \<Rightarrow> real" where
  "mem_clampValue v = max minQuadrantValue (min maxQuadrantValue v)"

definition mem_calculateIntensity :: "EmotionalQuadrant \<Rightarrow> real" where
  "mem_calculateIntensity st = sqrt ((joy st)\<^sup>2 + (calm st)\<^sup>2 + (anger st)\<^sup>2 + (sadness st)\<^sup>2)"

text \<open>
  \<^verbatim>\<open>store(item)\<close> raises for \<^verbatim>\<open>null\<close> and \<^verbatim>\<open>undefined\<close>, the item \<open>None\<close>.
  Otherwise it awaits the insert and does not look at what the insert answers: the client
  answers a failed insert with an error object, not with a rejection, so the call returns
  normally whether the row was inserted (\<open>insertOk\<close>) or not.
\<close>

definition mem_store ::
  "bool \<Rightarrow> SupabaseEmotionalMemory \<Rightarrow> EmotionalQuadrant option
     \<Rightarrow> store_error option \<times> SupabaseEmotionalMemory" where
  "mem_store insertOk m item =
     (case item of
        None \<Rightarrow> (Some InvalidStoreItem, m)
      | Some st \<Rightarrow>
          (None,
           if insertOk
           then m\<lparr> emotional_states := emotional_states m @ [(st, mem_calculateIntensity st)] \<rparr>
           else m))"

text \<open>\<^verbatim>\<open>updateState(impact)\<close> assigns the clamped sum, then stores it.\<close>

definition updateState ::
  "bool \<Rightarrow> SupabaseEmotionalMemory \<Rightarrow> EmotionalQuadrant
     \<Rightarrow> store_error option \<times> SupabaseEmotionalMemory" where
  "updateState insertOk m impact =
     (let st = \<lparr> joy = mem_clampValue (joy (currentState m) + joy impact),
                 calm = mem_clampValue (calm (currentState m) + calm impact),
                 anger = mem_clampValue (anger (currentState m) + anger impact),
                 sadness = mem_clampValue (sadness (currentState m) + sadness impact) \<rparr>
      in mem_store insertOk (m\<lparr> currentState := st \<rparr>) (Some st))"

text \<open>\<^verbatim>\<open>decayEmotions(rate)\<close> assigns the product, then stores it.\<close>

definition decayEmotions ::
  "bool \<Rightarrow> SupabaseEmotionalMemory \<Rightarrow> real \<Rightarrow> store_error option \<times> SupabaseEmotionalMemory" where
  "decayEmotions insertOk m rate =
     (let st = \<lparr> joy = joy (currentState m) * rate,
                 calm = calm (currentState m) * rate,
                 anger = anger (currentState m) * rate,
                 sadness = sadness (currentState m) * rate \<rparr>
      in mem_store insertOk (m\<lparr> currentState := st \<rparr>) (Some st))"

subsection \<open>Sequences of calls and the range of the quadrant\<close>

definition inRange :: "EmotionalQuadrant \<Rightarrow> bool" where
  "inRange q \<longleftrightarrow>
     -1 \<le> joy q \<and> joy q \<le> 1 \<and> -1 \<le> calm q \<and> calm q \<le> 1 \<and>
     -1 \<le> anger q \<and> anger q \<le> 1 \<and> -1 \<le> sadness q \<and> sadness q \<le> 1"

text \<open>A call on the emotional state: an update with an impact or a decay with a rate.\<close>

datatype emotional_call = Update EmotionalQuadrant | Decay real

text \<open>
  One call on the emotional memory, with the outcome of its insert; the assignment to
  \<^verbatim>\<open>currentState\<close> is made before the insert.
\<close>

fun mem_call ::
  "SupabaseEmotionalMemory \<Rightarrow> bool \<times> emotional_call \<Rightarrow> SupabaseEmotionalMemory" where
  "mem_call m (insertOk, Update impact) = snd (updateState insertOk m impact)"
| "mem_call m (insertOk, Decay rate) = snd (decayEmotions insertOk m rate)"

fun svc_call :: "EmotionalState \<Rightarrow> bool \<times> emotional_call \<Rightarrow> EmotionalState" where
  "svc_call st (dbOk, Update impact) = snd (processFact dbOk st impact)"
| "svc_call st (dbOk, Decay rate) = applyEmotionalDecay st rate"

fun rateOf :: "bool \<times> emotional_call \<Rightarrow> real" where
  "rateOf (_, Update _) = 0"
| "rateOf (_, Decay rate) = rate"

section \<open>Long-term memory (implementations/long-term-memory.ts)\<close>

record Pattern =
  pattern_id :: string
  pfacts :: "string list"
  pweight :: real
  emotionalSignature :: EmotionalQuadrant
  lastAccessed :: real

text \<open>
  \<open>patterns\<close> is the in-process map, keyed by each pattern's own id; an update of a
  pattern object held by the map is an update of the entry. \<open>patternsTable\<close> is the
  remote table behind \<^verbatim>\<open>DatabaseService\<close>, rows in table order.
\<close>

record SupabaseLongTermMemory =
  patterns :: "string \<rightharpoonup> Pattern"
  initialized :: bool
  patternsTable :: "Pattern list"

datatype db_call = LoadPatterns | FindSimilarFacts | FindPatternsWithFacts | UpdatePattern

datatype ltm_error = DbError db_call

text \<open>\<^verbatim>\<open>forEach(pattern => this.patterns.set(pattern.id, pattern))\<close>.\<close>

definition cachePatterns :: "(string \<rightharpoonup> Pattern) \<Rightarrow> Pattern list \<Rightarrow> (string \<rightharpoonup> Pattern)" where
  "cachePatterns m ps = foldl (\<lambda>m p. m(pattern_id p \<mapsto> p)) m ps"

text \<open>The database calls; \<open>fails\<close> says which of them raise during the operation at hand.\<close>

definition db_findPatternsWithFacts :: "Pattern list \<Rightarrow> string list \<Rightarrow> Pattern list" where
  "db_findPatternsWithFacts table factIds =
     filter (\<lambda>row. set factIds \<subseteq> set (pfacts row)) table"

definition db_updatePattern :: "Pattern list \<Rightarrow> Pattern \<Rightarrow> Pattern list" where
  "db_updatePattern table p =
     map (\<lambda>row. if pattern_id row = pattern_id p
                 then row\<lparr> pfacts := pfacts p, pweight := pweight p,
                           emotionalSignature := emotionalSignature p,
                           lastAccessed := lastAccessed p \<rparr>
                 else row) table"

definition ensureInitialized ::
  "(db_call \<Rightarrow> bool) \<Rightarrow> SupabaseLongTermMemory \<Rightarrow> ltm_error option \<times> SupabaseLongTermMemory" where
  "ensureInitialized fails s =
     (if initialized s then (None, s)
      else if fails LoadPatterns then (Some (DbError LoadPatterns), s)
      else (None, s\<lparr> patterns := cachePatterns (patterns s) (patternsTable s),
                      initialized := True \<rparr>))"

text \<open>
  \<^verbatim>\<open>calculateEmotionalSimilarity\<close>: the context is a
  \<^verbatim>\<open>Record<EmotionalDimension, number>\<close>, so it has the four keys.
\<close>

definition calculateEmotionalSimilarity :: "EmotionalQuadrant \<Rightarrow> Pattern \<Rightarrow> real" where
  "calculateEmotionalSimilarity emotionalContext pattern =
     (joy emotionalContext * joy (emotionalSignature pattern) +
      calm emotionalContext * calm (emotionalSignature pattern) +
      anger emotionalContext * anger (emotionalSignature pattern) +
      sadness emotionalContext * sadness (emotionalSignature pattern)) / 4"

definition updateEmotionalSignature :: "EmotionalQuadrant \<Rightarrow> EmotionalQuadrant \<Rightarrow> EmotionalQuadrant" where
  "updateEmotionalSignature signature context =
     \<lparr> joy = (joy signature + joy context) / 2,
       calm = (calm signature + calm context) / 2,
       anger = (anger signature + anger context) / 2,
       sadness = (sadness signature + sadness context) / 2 \<rparr>"

text \<open>
  \<^verbatim>\<open>findSimilarPatterns(embedding, threshold, emotionalContext?)\<close>. The embedding and the
  threshold only go to the vector search; \<open>similarFacts\<close> is the list of fact ids the
  search answers with.
\<close>

definition findSimilarPatterns ::
  "(db_call \<Rightarrow> bool) \<Rightarrow> string list \<Rightarrow> SupabaseLongTermMemory \<Rightarrow> EmotionalQuadrant option
     \<Rightarrow> (ltm_error + Pattern list) \<times> SupabaseLongTermMemory" where
  "findSimilarPatterns fails similarFacts s emotionalContext =
     (case ensureInitialized fails s of
        (Some e, s1) \<Rightarrow> (Inl e, s1)
      | (None, s1) \<Rightarrow>
          if fails FindSimilarFacts then (Inl (DbError FindSimilarFacts), s1)
          else if fails FindPatternsWithFacts then (Inl (DbError FindPatternsWithFacts), s1)
          else
            (let relatedPatterns = db_findPatternsWithFacts (patternsTable s1) similarFacts;
                 weightedPatterns =
                   (case emotionalContext of
                      None \<Rightarrow> relatedPatterns
                    | Some ctx \<Rightarrow>
                        map (\<lambda>pattern. pattern\<lparr> pweight :=
                               pweight pattern * (1 + calculateEmotionalSimilarity ctx pattern) \<rparr>)
                          relatedPatterns)
             in (Inr weightedPatterns,
                 s1\<lparr> patterns := cachePatterns (patterns s1) weightedPatterns \<rparr>)))"

text \<open>
  \<^verbatim>\<open>strengthenPattern(patternId, amount, emotionalContext?)\<close>; \<open>now\<close> is the clock read
  for the decay and \<open>stamp\<close> the later one stored in \<^verbatim>\<open>lastAccessed\<close>. The pattern object
  is changed before the database is called, so a failing call leaves the map changed.
\<close>

definition strengthenPattern ::
  "(db_call \<Rightarrow> bool) \<Rightarrow> real \<Rightarrow> real \<Rightarrow> SupabaseLongTermMemory \<Rightarrow> string \<Rightarrow> real
     \<Rightarrow> EmotionalQuadrant option \<Rightarrow> ltm_error option \<times> SupabaseLongTermMemory" where
  "strengthenPattern fails now stamp s patternId amount emotionalContext =
     (case ensureInitialized fails s of
        (Some e, s1) \<Rightarrow> (Some e, s1)
      | (None, s1) \<Rightarrow>
          (case patterns s1 patternId of
             None \<Rightarrow> (None, s1)
           | Some pattern \<Rightarrow>
               (let timeSinceLastAccess = now - lastAccessed pattern;
                    decayFactor = exp (- timeSinceLastAccess / (30 * 24 * 60 * 60 * 1000));
                    p1 = pattern\<lparr> pweight := pweight pattern * decayFactor \<rparr>;
                    emotionalReinforcement =
                      (case emotionalContext of
                         None \<Rightarrow> 1
                       | Some ctx \<Rightarrow> 1 + calculateEmotionalSimilarity ctx p1);
                    p2 = p1\<lparr> pweight := min 1 (pweight p1 + amount * emotionalReinforcement),
                             lastAccessed := stamp \<rparr>;
                    p3 = (case emotionalContext of
                            None \<Rightarrow> p2
                          | Some ctx \<Rightarrow>
                              p2\<lparr> emotionalSignature :=
                                    updateEmotionalSignature (emotionalSignature p2) ctx \<rparr>);
                    s2 = s1\<lparr> patterns := (patterns s1)(patternId \<mapsto> p3) \<rparr>
                in if fails UpdatePattern then (Some (DbError UpdatePattern), s2)
                   else (None, s2\<lparr> patternsTable := db_updatePattern (patternsTable s2) p3 \<rparr>))))"

section \<open>Sleep cycle (dist/index.js)\<close>







section \<open>Agreement of the buffer and the id map\<close>

definition ids :: "LRUWorkingMemory \<Rightarrow> string list" where
  "ids s = map (\<lambda>f. fact_id (heap s f)) (facts s)"

text \<open>
  Every fact of the buffer is in the map under its id, and every map entry holds a fact of
  the buffer under that fact's id.
\<close>

definition consistent :: "LRUWorkingMemory \<Rightarrow> bool" where
  "consistent s \<longleftrightarrow>
     (\<forall>f \<in> set (facts s). factMap s (fact_id (heap s f)) = Some f) \<and>
     (\<forall>k f. factMap s k = Some f \<longrightarrow> f \<in> set (facts s) \<and> fact_id (heap s f) = k)"

definition wellFormed :: "LRUWorkingMemory \<Rightarrow> bool" where
  "wellFormed s \<longleftrightarrow> consistent s \<and> distinct (ids s)"

section \<open>Example objects\<close>

definition neutral :: EmotionalQuadrant where
  "neutral = \<lparr> joy = 0, calm = 0, anger = 0, sadness = 0 \<rparr>"

definition mkFact :: "string \<Rightarrow> real \<Rightarrow> Fact" where
  "mkFact k w = \<lparr> fact_id = k, content = [], source = ReadText, timestamp = 0,
                  embedding = [], emotionalImpact = neutral, weight = w \<rparr>"

definition exampleHeap :: "ref \<Rightarrow> Fact" where
  "exampleHeap r =
     (if r = 0 then mkFact ''A'' (1/10)
      else if r = 1 then mkFact ''B'' (9/10)
      else if r = 2 then mkFact ''C'' (2/10)
      else mkFact ''D'' (5/10))"

definition lightLastHeap :: "ref \<Rightarrow> Fact" where
  "lightLastHeap r = (if r = 0 then mkFact ''A'' (9/10) else mkFact ''B'' (1/10))"


definition twinHeap :: "ref \<Rightarrow> Fact" where
  "twinHeap r = (if r = 2 then mkFact ''B'' (1/2) else mkFact ''A'' (1/2))"


definition exampleMemory :: LRUWorkingMemory where
  "exampleMemory = addFact (newWorkingMemory exampleHeap 3 Lru (1/2)) 0"


definition filledMemory :: LRUWorkingMemory where
  "filledMemory = foldl addFact (newWorkingMemory exampleHeap 3 Lru (1/2)) [0, 1, 2]"


definition allJoy :: EmotionalQuadrant where
  "allJoy = \<lparr> joy = 1, calm = 0, anger = 0, sadness = 0 \<rparr>"

definition thirtyDays :: real where
  "thirtyDays = 30 * 24 * 60 * 60 * 1000"

definition examplePattern :: Pattern where
  "examplePattern =
     \<lparr> pattern_id = ''p1'', pfacts = [''f1''], pweight = 1/2, emotionalSignature = allJoy,
       lastAccessed = 0 \<rparr>"

definition exampleStore :: SupabaseLongTermMemory where
  "exampleStore =
     \<lparr> patterns = [''p1'' \<mapsto> examplePattern], initialized = True,
       patternsTable = [examplePattern] \<rparr>"

definition noFailure :: "db_call \<Rightarrow> bool" where
  "noFailure c = False"





section \<open>Basic facts about the working memory\<close>

lemma facts_updateMetrics [simp]: "facts (updateMetrics b s) = facts s"
  by (simp add: updateMetrics_def)

lemma facts_pushFact [simp]: "facts (pushFact r s) = facts s @ [r]"
  by (simp add: pushFact_def)

lemma heap_simps [simp]:
  "heap (updateMetrics b s) = heap s" "heap (countEviction s) = heap s"
  "maxSize (updateMetrics b s) = maxSize s" "maxSize (countEviction s) = maxSize s"
  "evictionStrategy (updateMetrics b s) = evictionStrategy s"
  "evictionStrategy (countEviction s) = evictionStrategy s"
  "factMap (updateMetrics b s) = factMap s" "factMap (countEviction s) = factMap s"
  "facts (countEviction s) = facts s"
  by (simp_all add: updateMetrics_def countEviction_def)

lemma minWeight_scan:
  assumes "1 \<le> k" "k \<le> length fs"
  shows "foldl (minWeightStep h fs) 0 [1 ..< k] < k \<and>
         (\<forall>j<k. weight (h (fs ! foldl (minWeightStep h fs) 0 [1 ..< k])) \<le> weight (h (fs ! j))) \<and>
         (\<forall>j<foldl (minWeightStep h fs) 0 [1 ..< k].
             weight (h (fs ! foldl (minWeightStep h fs) 0 [1 ..< k])) < weight (h (fs ! j)))"
  using assms
proof (induction k)
  case 0
  then show ?case by simp
next
  case (Suc k)
  show ?case
  proof (cases "k = 0")
    case True
    then show ?thesis by simp
  next
    case False
    then have k: "1 \<le> k" "k \<le> length fs" using Suc.prems by simp_all
    note IH = Suc.IH [OF k]
    have upt: "[1 ..< Suc k] = [1 ..< k] @ [k]" using k by simp
    let ?m = "foldl (minWeightStep h fs) 0 [1 ..< k]"
    have step: "foldl (minWeightStep h fs) 0 [1 ..< Suc k] =
        (if weight (h (fs ! k)) < weight (h (fs ! ?m)) then k else ?m)"
      unfolding upt foldl_append by (simp add: minWeightStep_def)
    show ?thesis
    proof (cases "weight (h (fs ! k)) < weight (h (fs ! ?m))")
      case True
      then have eq: "foldl (minWeightStep h fs) 0 [1 ..< Suc k] = k" using step by simp
      have a: "\<forall>j<Suc k. weight (h (fs ! k)) \<le> weight (h (fs ! j))"
      proof (intro allI impI)
        fix j assume "j < Suc k"
        then consider "j < k" | "j = k" by linarith
        then show "weight (h (fs ! k)) \<le> weight (h (fs ! j))"
        proof cases
          case 1
          then have "weight (h (fs ! ?m)) \<le> weight (h (fs ! j))" using IH by blast
          then show ?thesis using True by linarith
        next
          case 2
          then show ?thesis by simp
        qed
      qed
      have b: "\<forall>j<k. weight (h (fs ! k)) < weight (h (fs ! j))"
      proof (intro allI impI)
        fix j assume "j < k"
        then have "weight (h (fs ! ?m)) \<le> weight (h (fs ! j))" using IH by blast
        then show "weight (h (fs ! k)) < weight (h (fs ! j))" using True by linarith
      qed
      show ?thesis unfolding eq using a b by simp
    next
      case False
      then have eq: "foldl (minWeightStep h fs) 0 [1 ..< Suc k] = ?m" using step by simp
      have a: "\<forall>j<Suc k. weight (h (fs ! ?m)) \<le> weight (h (fs ! j))"
      proof (intro allI impI)
        fix j assume "j < Suc k"
        then consider "j < k" | "j = k" by linarith
        then show "weight (h (fs ! ?m)) \<le> weight (h (fs ! j))"
        proof cases
          case 1
          then show ?thesis using IH by blast
        next
          case 2
          then show ?thesis using False by simp
        qed
      qed
      have c: "?m < Suc k" using IH by simp
      show ?thesis unfolding eq using a c IH by blast
    qed
  qed
qed


lemma minWeightIndex_props:
  assumes "fs \<noteq> []"
  shows "minWeightIndex h fs < length fs"
    and "\<forall>j<length fs. weight (h (fs ! minWeightIndex h fs)) \<le> weight (h (fs ! j))"
    and "\<forall>j<minWeightIndex h fs. weight (h (fs ! minWeightIndex h fs)) < weight (h (fs ! j))"
proof -
  have "1 \<le> length fs" using assms by (cases fs) simp_all
  from minWeight_scan [OF this order_refl, of h]
  show "minWeightIndex h fs < length fs"
    and "\<forall>j<length fs. weight (h (fs ! minWeightIndex h fs)) \<le> weight (h (fs ! j))"
    and "\<forall>j<minWeightIndex h fs. weight (h (fs ! minWeightIndex h fs)) < weight (h (fs ! j))"
    unfolding minWeightIndex_def by blast+
qed

lemma length_splice1: "i < length xs \<Longrightarrow> length (splice1 i xs) = length xs - 1"
  by (simp add: splice1_def)

lemma length_evict:
  "length (facts (evict s)) = length (facts s) - 1"
proof (cases "facts s")
  case Nil
  then show ?thesis
    by (simp add: evict_def evictOldest_def evictByWeight_def)
next
  case (Cons a as)
  then have "minWeightIndex (heap s) (facts s) < length (facts s)"
    using minWeightIndex_props(1) [of "facts s" "heap s"] by simp
  then show ?thesis
    using Cons by (simp add: evict_def evictOldest_def evictByWeight_def Let_def length_splice1)
qed

lemma evict_frame [simp]:
  "heap (evict s) = heap s" "maxSize (evict s) = maxSize s"
  "evictionStrategy (evict s) = evictionStrategy s"
  by (simp_all add: evict_def evictOldest_def evictByWeight_def Let_def split: list.splits)

lemma addFact_frame [simp]:
  "heap (addFact s r) = heap s" "maxSize (addFact s r) = maxSize s"
  "evictionStrategy (addFact s r) = evictionStrategy s"
  by (simp_all add: addFact_def pushFact_def)

lemma facts_addFact:
  "facts (addFact s r) =
     (if int (length (facts s)) \<ge> maxSize s then facts (evict s) else facts s) @ [r]"
  by (simp add: addFact_def)

lemma addFact_bounded:
  assumes "1 \<le> maxSize s" "int (length (facts s)) \<le> maxSize s"
  shows "int (length (facts (addFact s r))) \<le> maxSize s"
proof (cases "int (length (facts s)) \<ge> maxSize s")
  case True
  then have "length (facts s) \<noteq> 0" using assms(1) by auto
  then show ?thesis
    using assms True by (simp add: facts_addFact length_evict)
next
  case False
  then show ?thesis by (simp add: facts_addFact)
qed

lemma foldl_addFact_frame [simp]:
  "heap (foldl addFact s rs) = heap s" "maxSize (foldl addFact s rs) = maxSize s"
  "evictionStrategy (foldl addFact s rs) = evictionStrategy s"
  by (induction rs arbitrary: s) simp_all

lemma foldl_addFact_bounded:
  assumes "1 \<le> maxSize s" "int (length (facts s)) \<le> maxSize s"
  shows "int (length (facts (foldl addFact s rs))) \<le> maxSize s"
  using assms
proof (induction rs arbitrary: s)
  case Nil
  then show ?case by simp
next
  case (Cons r rs)
  have "int (length (facts (addFact s r))) \<le> maxSize (addFact s r)"
    using addFact_bounded [OF Cons.prems] by simp
  from Cons.IH [OF _ this] Cons.prems(1) show ?case by simp
qed

lemma foldl_addFact_filling:
  assumes "int (length (facts s) + length rs) \<le> maxSize s"
  shows "facts (foldl addFact s rs) = facts s @ rs"
  using assms
proof (induction rs arbitrary: s)
  case Nil
  then show ?case by simp
next
  case (Cons r rs)
  have step: "facts (addFact s r) = facts s @ [r]"
    using Cons.prems by (simp add: facts_addFact)
  have "int (length (facts (addFact s r)) + length rs) \<le> maxSize (addFact s r)"
    using Cons.prems step by simp
  from Cons.IH [OF this] step show ?case by simp
qed

lemma weight_fill_then_add:
  assumes c: "1 \<le> c" and len: "length rs = Suc c"
  shows "facts (foldl addFact (newWorkingMemory h (int c) ByWeight th) rs) =
           splice1 (minWeightIndex h (take c rs)) (take c rs) @ [rs ! c]"
proof -
  let ?s0 = "newWorkingMemory h (int c) ByWeight th"
  let ?s1 = "foldl addFact ?s0 (take c rs)"
  have s0: "maxSize ?s0 = int c" "facts ?s0 = []" "heap ?s0 = h" "evictionStrategy ?s0 = ByWeight"
    by (simp_all add: newWorkingMemory_def)
  have rs: "rs = take c rs @ [rs ! c]"
    using len by (metis lessI take_Suc_conv_app_nth take_all order_refl)
  have f1: "facts ?s1 = take c rs"
    using foldl_addFact_filling [of ?s0 "take c rs"] s0 len by simp
  have "foldl addFact ?s0 rs = addFact ?s1 (rs ! c)"
    by (subst rs) (simp only: foldl_append foldl_Cons foldl_Nil)
  moreover have "facts (addFact ?s1 (rs ! c)) = facts (evict ?s1) @ [rs ! c]"
    using f1 s0 len by (simp add: facts_addFact)
  moreover have "facts (evict ?s1) = splice1 (minWeightIndex h (take c rs)) (take c rs)"
    using f1 s0 c len by (simp add: evict_def evictByWeight_def Let_def)
  ultimately show ?thesis by simp
qed

lemma set_splice1_distinct:
  assumes "distinct xs" "i < length xs"
  shows "set (splice1 i xs) = set xs - {xs ! i}"
proof -
  have xs: "xs = take i xs @ xs ! i # drop (Suc i) xs"
    using assms(2) by (simp add: id_take_nth_drop)
  have d: "distinct (take i xs @ xs ! i # drop (Suc i) xs)"
    using assms(1) xs by simp
  have "set xs = set (take i xs) \<union> {xs ! i} \<union> set (drop (Suc i) xs)"
    by (subst xs) auto
  moreover have "xs ! i \<notin> set (take i xs)" "xs ! i \<notin> set (drop (Suc i) xs)"
    using d by auto
  ultimately show ?thesis by (auto simp: splice1_def)
qed

section \<open>Preservation of the agreement between buffer and id map\<close>

lemma wellFormed_fields:
  "heap s' = heap s \<Longrightarrow> factMap s' = factMap s \<Longrightarrow> facts s' = facts s \<Longrightarrow>
     wellFormed s' = wellFormed s"
  by (simp add: wellFormed_def consistent_def ids_def)

lemma wellFormed_updateMetrics [simp]: "wellFormed (updateMetrics b s) = wellFormed s"
  by (rule wellFormed_fields) simp_all

lemma wellFormed_countEviction [simp]: "wellFormed (countEviction s) = wellFormed s"
  by (rule wellFormed_fields) simp_all

lemma wellFormed_new: "wellFormed (newWorkingMemory h c strat th)"
  by (simp add: wellFormed_def consistent_def ids_def newWorkingMemory_def)

lemma wellFormed_clear: "wellFormed (clear s)"
  by (simp add: wellFormed_def consistent_def ids_def clear_def)

lemma wellFormedI:
  assumes "\<And>f. f \<in> set (facts s) \<Longrightarrow> factMap s (fact_id (heap s f)) = Some f"
    and "\<And>k f. factMap s k = Some f \<Longrightarrow> f \<in> set (facts s) \<and> fact_id (heap s f) = k"
    and "distinct (map (\<lambda>f. fact_id (heap s f)) (facts s))"
  shows "wellFormed s"
  using assms unfolding wellFormed_def consistent_def ids_def by blast

lemma wellFormedD:
  assumes "wellFormed s"
  shows "f \<in> set (facts s) \<Longrightarrow> factMap s (fact_id (heap s f)) = Some f"
    and "factMap s k = Some f \<Longrightarrow> f \<in> set (facts s) \<and> fact_id (heap s f) = k"
    and "distinct (map (\<lambda>f. fact_id (heap s f)) (facts s))"
  using assms unfolding wellFormed_def consistent_def ids_def by blast+

text \<open>Removing one element of the buffer together with its id's map entry.\<close>

lemma wellFormed_remove:
  assumes wf: "wellFormed s" and fs: "facts s = xs @ x # ys"
  shows "wellFormed (s\<lparr> facts := xs @ ys, factMap := (factMap s)(fact_id (heap s x) := None) \<rparr>)"
    (is "wellFormed ?s'")
proof (rule wellFormedI)
  let ?g = "\<lambda>f. fact_id (heap s f)"
  have d: "distinct (map ?g (xs @ x # ys))" using wellFormedD(3) [OF wf] fs by simp
  have other: "?g f \<noteq> ?g x" if "f \<in> set xs \<union> set ys" for f
    using d that by (auto simp: image_iff)
  show "factMap ?s' (fact_id (heap ?s' f)) = Some f" if "f \<in> set (facts ?s')" for f
  proof -
    have "f \<in> set xs \<union> set ys" using that by simp
    moreover from this have "f \<in> set (facts s)" using fs by auto
    ultimately show ?thesis using other wellFormedD(1) [OF wf] by simp
  qed
  show "f \<in> set (facts ?s') \<and> fact_id (heap ?s' f) = k" if "factMap ?s' k = Some f" for k f
  proof -
    have k: "k \<noteq> ?g x" "factMap s k = Some f" using that by (auto split: if_splits)
    then have "f \<in> set (facts s)" "?g f = k" using wellFormedD(2) [OF wf] by blast+
    moreover from this k have "f \<noteq> x" by auto
    ultimately show ?thesis using fs by auto
  qed
  show "distinct (map (\<lambda>f. fact_id (heap ?s' f)) (facts ?s'))"
    using d by auto
qed

lemma wellFormed_evictOldest: "wellFormed s \<Longrightarrow> wellFormed (evictOldest s)"
proof (cases "facts s")
  case Nil
  assume "wellFormed s"
  then show ?thesis using Nil by (simp add: evictOldest_def)
next
  case (Cons a as)
  assume wf: "wellFormed s"
  have "facts s = [] @ a # as" using Cons by simp
  from wellFormed_remove [OF wf this] show ?thesis
    using Cons by (simp add: evictOldest_def)
qed

lemma wellFormed_evictByWeight: "wellFormed s \<Longrightarrow> wellFormed (evictByWeight s)"
proof (cases "facts s = []")
  case True
  assume "wellFormed s"
  then show ?thesis using True by (simp add: evictByWeight_def)
next
  case False
  assume wf: "wellFormed s"
  let ?i = "minWeightIndex (heap s) (facts s)"
  have i: "?i < length (facts s)" using minWeightIndex_props(1) [OF False] .
  then have "facts s = take ?i (facts s) @ facts s ! ?i # drop (Suc ?i) (facts s)"
    by (simp add: id_take_nth_drop)
  from wellFormed_remove [OF wf this] show ?thesis
    using False by (simp add: evictByWeight_def Let_def splice1_def)
qed

lemma wellFormed_evict: "wellFormed s \<Longrightarrow> wellFormed (evict s)"
  by (simp add: evict_def wellFormed_evictOldest wellFormed_evictByWeight)

lemma set_facts_evict: "set (facts (evict s)) \<subseteq> set (facts s)"
  by (auto simp: evict_def evictOldest_def evictByWeight_def splice1_def
        Let_def split: list.splits dest: in_set_takeD in_set_dropD)

lemma wellFormed_pushFact:
  assumes wf: "wellFormed s" and fresh: "fact_id (heap s r) \<notin> set (ids s)"
  shows "wellFormed (pushFact r s)"
proof -
  let ?g = "\<lambda>f. fact_id (heap s f)"
  let ?s' = "s\<lparr> factMap := (factMap s)(?g r \<mapsto> r), facts := facts s @ [r] \<rparr>"
  have other: "?g f \<noteq> ?g r" if "f \<in> set (facts s)" for f
    using fresh that by (auto simp: ids_def image_iff)
  have "wellFormed ?s'"
  proof (rule wellFormedI)
    show "factMap ?s' (fact_id (heap ?s' f)) = Some f" if "f \<in> set (facts ?s')" for f
    proof (cases "f = r")
      case True
      then show ?thesis by simp
    next
      case False
      then have "f \<in> set (facts s)" using that by simp
      then show ?thesis using other wellFormedD(1) [OF wf] by simp
    qed
    show "f \<in> set (facts ?s') \<and> fact_id (heap ?s' f) = k" if "factMap ?s' k = Some f" for k f
    proof (cases "k = ?g r")
      case True
      then show ?thesis using that by simp
    next
      case False
      then have "factMap s k = Some f" using that by simp
      then show ?thesis using wellFormedD(2) [OF wf] by simp
    qed
    show "distinct (map (\<lambda>f. fact_id (heap ?s' f)) (facts ?s'))"
      using wellFormedD(3) [OF wf] fresh by (simp add: ids_def)
  qed
  then show ?thesis by (simp add: pushFact_def)
qed

lemma ids_evict: "set (ids (evict s)) \<subseteq> set (ids s)"
  using set_facts_evict [of s] by (auto simp: ids_def)

lemma wellFormed_addFact:
  assumes "wellFormed s" "fact_id (heap s r) \<notin> set (ids s)"
  shows "wellFormed (addFact s r)"
proof -
  let ?s1 = "if int (length (facts s)) \<ge> maxSize s then evict s else s"
  have wf1: "wellFormed ?s1" using assms(1) by (simp add: wellFormed_evict)
  have "set (ids ?s1) \<subseteq> set (ids s)" using ids_evict by simp
  moreover have "heap ?s1 = heap s" by simp
  ultimately have "fact_id (heap ?s1 r) \<notin> set (ids ?s1)" using assms(2) by auto
  from wellFormed_pushFact [OF wf1 this] show ?thesis by (simp add: addFact_def)
qed

lemma wellFormed_delete:
  assumes wf: "wellFormed s"
  shows "wellFormed (delete s k)"
proof -
  let ?g = "\<lambda>f. fact_id (heap s f)"
  let ?s' = "s\<lparr> factMap := (factMap s)(k := None),
           facts := filter (\<lambda>f. ?g f \<noteq> k) (facts s) \<rparr>"
  have "wellFormed ?s'"
  proof (rule wellFormedI)
    show "factMap ?s' (fact_id (heap ?s' f)) = Some f" if "f \<in> set (facts ?s')" for f
      using that wellFormedD(1) [OF wf] by simp
    show "f \<in> set (facts ?s') \<and> fact_id (heap ?s' f) = k'" if "factMap ?s' k' = Some f" for k' f
    proof -
      have "k' \<noteq> k" "factMap s k' = Some f" using that by (auto split: if_splits)
      then show ?thesis using wellFormedD(2) [OF wf, of k' f] by simp
    qed
    show "distinct (map (\<lambda>f. fact_id (heap ?s' f)) (facts ?s'))"
      using wellFormedD(3) [OF wf] by (simp add: distinct_map_filter)
  qed
  then show ?thesis by (simp add: delete_def)
qed

lemma findIndex_Some:
  "findIndex P xs = Some i \<Longrightarrow> i < length xs \<and> P (xs ! i)"
  by (induction xs arbitrary: i) (auto split: if_splits)

lemma findIndex_None: "findIndex P xs = None \<Longrightarrow> x \<in> set xs \<Longrightarrow> \<not> P x"
  by (induction xs) (auto split: if_splits)

lemma splice1_rotate:
  assumes "i < length xs"
  shows "set (splice1 i xs @ [xs ! i]) = set xs"
    and "distinct xs \<Longrightarrow> distinct (splice1 i xs @ [xs ! i])"
proof -
  have xs: "xs = take i xs @ xs ! i # drop (Suc i) xs"
    using assms by (simp add: id_take_nth_drop)
  show "set (splice1 i xs @ [xs ! i]) = set xs"
    by (subst (3) xs) (auto simp: splice1_def)
  assume "distinct xs"
  then have "distinct (take i xs @ xs ! i # drop (Suc i) xs)" using xs by simp
  then show "distinct (splice1 i xs @ [xs ! i])" by (auto simp: splice1_def)
qed

lemma map_splice1: "map g (splice1 i xs) = splice1 i (map g xs)"
  by (simp add: splice1_def take_map drop_map)

lemma wellFormed_replace:
  assumes wf: "wellFormed s" and old: "factMap s k = Some old" and r: "fact_id (heap s r) = k"
    and L: "set L = insert r (set (facts s) - {old})"
    and dL: "distinct (map (\<lambda>f. fact_id (heap s f)) L)"
  shows "wellFormed (s\<lparr> factMap := (factMap s)(k \<mapsto> r), facts := L \<rparr>)" (is "wellFormed ?s'")
proof (rule wellFormedI)
  let ?g = "\<lambda>f. fact_id (heap s f)"
  have oldin: "old \<in> set (facts s)" "?g old = k" using wellFormedD(2) [OF wf old] by simp_all
  have inj: "inj_on ?g (set (facts s))"
    using wellFormedD(3) [OF wf] by (simp add: distinct_map)
  show "factMap ?s' (fact_id (heap ?s' f)) = Some f" if "f \<in> set (facts ?s')" for f
  proof (cases "f = r")
    case True
    then show ?thesis using r by simp
  next
    case False
    then have f: "f \<in> set (facts s)" "f \<noteq> old" using that L by auto
    then have "?g f \<noteq> k" using inj oldin by (auto dest: inj_onD)
    then show ?thesis using wellFormedD(1) [OF wf f(1)] by simp
  qed
  show "f \<in> set (facts ?s') \<and> fact_id (heap ?s' f) = k'" if "factMap ?s' k' = Some f" for k' f
  proof (cases "k' = k")
    case True
    then show ?thesis using that r L by simp
  next
    case False
    then have "factMap s k' = Some f" using that by simp
    then have "f \<in> set (facts s)" "?g f = k'" using wellFormedD(2) [OF wf] by blast+
    moreover from this False oldin have "f \<noteq> old" by auto
    ultimately show ?thesis using L by simp
  qed
  show "distinct (map (\<lambda>f. fact_id (heap ?s' f)) (facts ?s'))" using dL by simp
qed

lemma wellFormed_update:
  assumes wf: "wellFormed s" and item: "\<forall>f. item = Some f \<longrightarrow> fact_id (heap s f) = k"
  shows "wellFormed (snd (update s k item))"
proof (cases item)
  case None
  then show ?thesis using wf by (simp add: update_def)
next
  case (Some r)
  then have r: "fact_id (heap s r) = k" using item by simp
  show ?thesis
  proof (cases "factMap s k")
    case None
    then show ?thesis using wf Some by (simp add: update_def)
  next
    case (Some old)
    let ?g = "\<lambda>f. fact_id (heap s f)"
    have oldin: "old \<in> set (facts s)" "?g old = k" using wellFormedD(2) [OF wf Some] by simp_all
    obtain i where i: "findIndex (\<lambda>f. ?g f = k) (facts s) = Some i"
      using findIndex_None [of "\<lambda>f. ?g f = k" "facts s" old] oldin by (cases "findIndex (\<lambda>f. ?g f = k) (facts s)") auto
    have ilen: "i < length (facts s)" and ik: "?g (facts s ! i) = k"
      using findIndex_Some [OF i] by simp_all
    have "factMap s (?g (facts s ! i)) = Some (facts s ! i)"
      using wellFormedD(1) [OF wf] ilen by simp
    then have at: "facts s ! i = old" using ik Some by simp
    let ?fs = "(facts s)[i := r]"
    have dfacts: "distinct (facts s)"
      using wellFormedD(3) [OF wf] by (simp add: distinct_map)
    have setfs: "set ?fs = insert r (set (facts s) - {old})"
      using set_update_distinct [OF dfacts ilen] at by simp
    have mapfs: "map ?g ?fs = map ?g (facts s)"
      using r ik ilen by (simp add: map_update list_update_same_conv)
    have dfs: "distinct (map ?g ?fs)" using mapfs wellFormedD(3) [OF wf] by simp
    have nth: "?fs ! i = r" using ilen by simp
    have len: "i < length ?fs" using ilen by simp
    have setL: "set (splice1 i ?fs @ [r]) = insert r (set (facts s) - {old})"
      using splice1_rotate(1) [OF len] nth setfs by (simp del: set_append)
    have mapL: "map ?g (splice1 i ?fs @ [r]) = splice1 i (map ?g ?fs) @ [map ?g ?fs ! i]"
      using len nth by (simp add: map_splice1)
    have "distinct (splice1 i (map ?g ?fs) @ [map ?g ?fs ! i])"
      by (rule splice1_rotate(2)) (use len dfs in simp_all)
    then have dL: "distinct (map ?g (splice1 i ?fs @ [r]))"
      by (simp only: mapL)
    have A: "wellFormed (s\<lparr> factMap := (factMap s)(k \<mapsto> r), facts := ?fs \<rparr>)"
      by (rule wellFormed_replace [OF wf Some r setfs dfs])
    have B: "wellFormed (s\<lparr> factMap := (factMap s)(k \<mapsto> r), facts := splice1 i ?fs @ [r] \<rparr>)"
      by (rule wellFormed_replace [OF wf Some r setL dL])
    show ?thesis
      using A B Some \<open>item = Some r\<close> i by (simp add: update_def Let_def)
  qed
qed

lemma wellFormed_ids_cong:
  assumes "\<And>r. fact_id (heap s' r) = fact_id (heap s r)" "factMap s' = factMap s"
    "facts s' = facts s"
  shows "wellFormed s' = wellFormed s"
  using assms by (simp add: wellFormed_def consistent_def ids_def)

lemma normalizeStep_wellFormed:
  assumes wf: "wellFormed s" and f: "f \<in> set (facts s)"
  shows "wellFormed (normalizeStep m s f)" and "facts (normalizeStep m s f) = facts s"
proof -
  have "factMap s (fact_id (heap s f)) = Some f" using wellFormedD(1) [OF wf f] .
  then have "(factMap s)(fact_id (heap s f) \<mapsto> f) = factMap s"
    by (simp add: fun_upd_idem)
  then have "wellFormed (normalizeStep m s f) = wellFormed s"
    by (intro wellFormed_ids_cong) (simp_all add: normalizeStep_def)
  then show "wellFormed (normalizeStep m s f)" using wf by simp
  show "facts (normalizeStep m s f) = facts s" by (simp add: normalizeStep_def)
qed

lemma foldl_normalizeStep_wellFormed:
  assumes "wellFormed s" "set xs \<subseteq> set (facts s)"
  shows "wellFormed (foldl (normalizeStep m) s xs)"
  using assms
proof (induction xs arbitrary: s)
  case Nil
  then show ?case by simp
next
  case (Cons x xs)
  have x: "x \<in> set (facts s)" using Cons.prems(2) by simp
  have wf': "wellFormed (normalizeStep m s x)" and fs': "facts (normalizeStep m s x) = facts s"
    using normalizeStep_wellFormed [OF Cons.prems(1) x] by blast+
  have "set xs \<subseteq> set (facts (normalizeStep m s x))" using Cons.prems(2) fs' by simp
  from Cons.IH [OF wf' this] show ?case by simp
qed

lemma wellFormed_consolidate: "wellFormed s \<Longrightarrow> wellFormed (consolidate s)"
  by (simp add: consolidate_def foldl_normalizeStep_wellFormed split: option.splits)

lemma retrieve_iff_buffered:
  assumes wf: "wellFormed s"
  shows "fst (retrieve s k) \<noteq> None \<longleftrightarrow> k \<in> set (ids s)"
proof
  assume "fst (retrieve s k) \<noteq> None"
  then obtain f where f: "factMap s k = Some f" by (auto simp: retrieve_def)
  have "f \<in> set (facts s)" "fact_id (heap s f) = k" using wellFormedD(2) [OF wf f] by blast+
  then show "k \<in> set (ids s)" unfolding ids_def by (simp add: image_iff) blast
next
  assume "k \<in> set (ids s)"
  then obtain f where f: "f \<in> set (facts s)" "fact_id (heap s f) = k" by (auto simp: ids_def)
  have "factMap s (fact_id (heap s f)) = Some f" using wellFormedD(1) [OF wf f(1)] .
  then show "fst (retrieve s k) \<noteq> None" using f(2) by (simp add: retrieve_def)
qed


section \<open>Weight normalisation\<close>

lemma math_max_Max:
  assumes "xs \<noteq> []"
  shows "math_max xs = Some (Max (set xs))"
proof -
  obtain a list where xs: "xs = a # list" using assms by (cases xs) auto
  have "(\<lambda>x s. max s x) = (max :: real \<Rightarrow> real \<Rightarrow> real)"
    by (intro ext) (rule max.commute)
  then have "foldl max a list = fold max list a" by (simp add: foldl_conv_fold)
  also have "\<dots> = Max (set (a # list))" by (simp only: Max.set_eq_fold)
  finally show ?thesis using xs by (simp add: math_max_def)
qed

lemma heap_normalizeStep:
  "heap (normalizeStep m s x) = (heap s)(x := (heap s x)\<lparr> weight := weight (heap s x) / m \<rparr>)"
  by (simp add: normalizeStep_def)

lemma math_max_Nil [simp]: "math_max [] = None"
  by (simp add: math_max_def)

lemma foldl_normalizeStep_facts [simp]: "facts (foldl (normalizeStep m) s xs) = facts s"
  by (induction xs arbitrary: s) (simp_all add: normalizeStep_def)

lemma foldl_normalizeStep_heap:
  assumes "distinct xs"
  shows "heap (foldl (normalizeStep m) s xs) r =
           (if r \<in> set xs then (heap s r)\<lparr> weight := weight (heap s r) / m \<rparr> else heap s r)"
  using assms
proof (induction xs arbitrary: s)
  case Nil
  then show ?case by simp
next
  case (Cons x xs)
  have x: "x \<notin> set xs" and d: "distinct xs" using Cons.prems by simp_all
  have "heap (foldl (normalizeStep m) (normalizeStep m s x) xs) r =
          (if r \<in> set xs
           then (heap (normalizeStep m s x) r)\<lparr> weight := weight (heap (normalizeStep m s x) r) / m \<rparr>
           else heap (normalizeStep m s x) r)"
    by (rule Cons.IH [OF d])
  then show ?case using x by (auto simp: heap_normalizeStep)
qed

lemma consolidate_cases:
  "consolidate s =
     (if facts s \<noteq> [] \<and> 0 < Max (set (map (\<lambda>f. weight (heap s f)) (facts s)))
      then foldl (normalizeStep (Max (set (map (\<lambda>f. weight (heap s f)) (facts s))))) s (facts s)
      else s)"
proof (cases "facts s = []")
  case True
  then show ?thesis by (simp add: consolidate_def)
next
  case False
  then have "math_max (map (\<lambda>f. weight (heap s f)) (facts s)) =
      Some (Max (set (map (\<lambda>f. weight (heap s f)) (facts s))))"
    by (intro math_max_Max) simp
  then show ?thesis using False by (simp add: consolidate_def)
qed

lemma Max_scaled:
  fixes m :: real
  assumes "xs \<noteq> []" "m = Max (set xs)" "0 < m"
  shows "Max (set (map (\<lambda>x. x / m) xs)) = 1"
proof (rule Max_eqI)
  show "finite (set (map (\<lambda>x. x / m) xs))" by simp
  have "m \<in> set xs" using assms(1,2) Max_in [of "set xs"] by simp
  then have "m / m \<in> set (map (\<lambda>x. x / m) xs)" by (simp add: image_iff) blast
  then show "1 \<in> set (map (\<lambda>x. x / m) xs)" using assms(3) by simp
  fix y assume "y \<in> set (map (\<lambda>x. x / m) xs)"
  then obtain x where x: "x \<in> set xs" "y = x / m" by auto
  then have "x \<le> m" using assms(2) by simp
  then show "y \<le> 1" using x assms(3) by (simp add: divide_le_eq)
qed


section \<open>Range of the emotional quadrant\<close>

lemma svc_clampValue_range: "-1 \<le> svc_clampValue v \<and> svc_clampValue v \<le> 1"
  by (simp add: svc_clampValue_def)

lemma mem_clampValue_range: "-1 \<le> mem_clampValue v \<and> mem_clampValue v \<le> 1"
  by (simp add: mem_clampValue_def minQuadrantValue_def maxQuadrantValue_def)

lemma currentState_mem_store [simp]: "currentState (snd (mem_store ok m item)) = currentState m"
  by (simp add: mem_store_def split: option.splits)

lemma currentState_updateState:
  "currentState (snd (updateState ok m impact)) =
     \<lparr> joy = mem_clampValue (joy (currentState m) + joy impact),
       calm = mem_clampValue (calm (currentState m) + calm impact),
       anger = mem_clampValue (anger (currentState m) + anger impact),
       sadness = mem_clampValue (sadness (currentState m) + sadness impact) \<rparr>"
  by (simp add: updateState_def Let_def)

lemma currentState_decayEmotions:
  "currentState (snd (decayEmotions ok m rate)) =
     \<lparr> joy = joy (currentState m) * rate, calm = calm (currentState m) * rate,
       anger = anger (currentState m) * rate, sadness = sadness (currentState m) * rate \<rparr>"
  by (simp add: decayEmotions_def Let_def)

lemma inRange_updateState: "inRange (currentState (snd (updateState ok m impact)))"
  by (simp add: currentState_updateState inRange_def mem_clampValue_range)

lemma scaled_range:
  fixes x r :: real
  assumes "-1 \<le> x" "x \<le> 1" "\<bar>r\<bar> \<le> 1"
  shows "-1 \<le> x * r \<and> x * r \<le> 1"
proof -
  have "\<bar>x * r\<bar> = \<bar>x\<bar> * \<bar>r\<bar>" by (rule abs_mult)
  also have "\<dots> \<le> 1 * 1" using assms by (intro mult_mono) auto
  finally show ?thesis by (simp add: abs_le_iff)
qed

lemma inRange_decayEmotions:
  assumes "inRange (currentState m)" "\<bar>rate\<bar> \<le> 1"
  shows "inRange (currentState (snd (decayEmotions ok m rate)))"
  using assms scaled_range [of _ rate]
  by (simp add: currentState_decayEmotions inRange_def)

lemma inRange_calculateNewState: "inRange (quadrant (calculateNewState st impact))"
  by (simp add: calculateNewState_def Let_def inRange_def svc_clampValue_range)

lemma inRange_applyEmotionalDecay: "inRange (quadrant (applyEmotionalDecay st rate))"
  by (simp add: applyEmotionalDecay_def Let_def inRange_calculateNewState)

lemma inRange_mem_calls:
  assumes "inRange (currentState m)" "\<forall>c \<in> set calls. \<bar>rateOf c\<bar> \<le> 1"
  shows "inRange (currentState (foldl mem_call m calls))"
  using assms
proof (induction calls arbitrary: m)
  case Nil
  then show ?case by simp
next
  case (Cons c calls)
  obtain ok call where c: "c = (ok, call)" by (cases c)
  have "inRange (currentState (mem_call m c))"
  proof (cases call)
    case (Update impact)
    then show ?thesis using c by (simp add: inRange_updateState)
  next
    case (Decay rate)
    then have "\<bar>rate\<bar> \<le> 1" using Cons.prems(2) c by simp
    then show ?thesis using c Decay Cons.prems(1) by (simp add: inRange_decayEmotions)
  qed
  then show ?case using Cons.IH [of "mem_call m c"] Cons.prems(2) by simp
qed

lemma inRange_svc_calls:
  assumes "inRange (quadrant st)"
  shows "inRange (quadrant (foldl svc_call st calls))"
  using assms
proof (induction calls arbitrary: st)
  case Nil
  then show ?case by simp
next
  case (Cons c calls)
  obtain ok call where c: "c = (ok, call)" by (cases c)
  have "inRange (quadrant (svc_call st c))"
    using c Cons.prems
    by (cases call) (simp_all add: processFact_def Let_def inRange_calculateNewState
        inRange_applyEmotionalDecay)
  then show ?case using Cons.IH [of "svc_call st c"] by simp
qed

section \<open>A bound on the decay factor of thirty days\<close>

lemma exp_minus_one_bounds: "0.36785 \<le> exp (- 1 :: real) \<and> exp (- 1 :: real) \<le> 0.36795"
proof -
  obtain t :: real where t: "\<bar>t\<bar> \<le> \<bar>- 1 :: real\<bar>"
    and e: "exp (- 1 :: real) = (\<Sum>m<8. ((- 1) ^ m) / fact m) + (exp t / fact 8) * (- 1) ^ 8"
    using Maclaurin_exp_le [of "- 1" 8] by blast
  have s: "(\<Sum>m<8. ((- 1 :: real) ^ m) / fact m) = 103 / 280"
    by (simp add: eval_nat_numeral)
  have "t \<le> 1" using t by simp
  then have "exp t \<le> exp 1" by simp
  then have up: "exp t \<le> 3" using exp_le by linarith
  have lo: "0 < exp t" by simp
  have f8: "fact 8 = (40320 :: real)" by (simp add: eval_nat_numeral)
  define r where "r = exp t / 40320"
  have r: "0 \<le> r" "r \<le> 3 / 40320" using up lo by (simp_all add: r_def)
  have "exp (- 1 :: real) = 103 / 280 + r"
    using e s f8 by (simp add: r_def)
  then have "103 / 280 \<le> exp (- 1 :: real)" "exp (- 1 :: real) \<le> 103 / 280 + 3 / 40320"
    using r by linarith+
  moreover have "(0.36785 :: real) \<le> 103 / 280" "103 / 280 + 3 / 40320 \<le> (0.36795 :: real)"
    by simp_all
  ultimately show ?thesis by linarith
qed

section \<open>The replay loop of the sleep cycle\<close>








section \<open>Claims\<close>

text \<open>
  C9. Immediately after \<^verbatim>\<open>addFact(f)\<close>, \<open>f\<close> is a member of \<^verbatim>\<open>getFacts()\<close>, in every
  state and under either eviction strategy: the victim is chosen before the new fact is
  appended, so the new fact is the last element of the buffer and every other element was
  in the buffer before the call.
\<close>

theorem C9_added_fact_present:
  "r \<in> set (getFacts (addFact s r)) \<and>
   last (getFacts (addFact s r)) = r \<and>
   set (getFacts (addFact s r)) \<subseteq> set (getFacts s) \<union> {r}"
proof -
  have sub: "set (facts (evict s)) \<subseteq> set (facts s)"
    by (auto simp: evict_def evictOldest_def evictByWeight_def countEviction_def splice1_def
          Let_def split: list.splits dest: in_set_takeD in_set_dropD)
  show ?thesis
    using sub by (auto simp: getFacts_def addFact_def)
qed


text \<open>
  C1. For a capacity (a whole number) of at least 1, after every prefix of every sequence
  of \<^verbatim>\<open>addFact\<close> calls on a new working memory the buffer holds at most \<open>maxSize\<close>
  facts. When the buffer is at capacity, \<^verbatim>\<open>addFact\<close> first evicts exactly one element
  under the configured strategy and then appends the new fact, so the length stays the same.
\<close>

theorem C1_capacity_invariant:
  "1 \<le> c \<Longrightarrow>
     int (length (getFacts (foldl addFact (newWorkingMemory h c strat th) (take n rs)))) \<le> c \<and>
     (maxSize s \<le> int (length (getFacts s)) \<and> 1 \<le> maxSize s \<longrightarrow>
        getFacts (addFact s r) = getFacts (evict s) @ [r] \<and>
        Suc (length (getFacts (evict s))) = length (getFacts s) \<and>
        length (getFacts (addFact s r)) = length (getFacts s))"
proof -
  assume c: "1 \<le> c"
  let ?s0 = "newWorkingMemory h c strat th"
  have s0: "maxSize ?s0 = c" "facts ?s0 = []" by (simp_all add: newWorkingMemory_def)
  have "int (length (facts (foldl addFact ?s0 (take n rs)))) \<le> maxSize ?s0"
    by (rule foldl_addFact_bounded) (use c s0 in simp_all)
  then have A: "int (length (getFacts (foldl addFact ?s0 (take n rs)))) \<le> c"
    using s0 by (simp add: getFacts_def)
  have B: "getFacts (addFact s r) = getFacts (evict s) @ [r] \<and>
        Suc (length (getFacts (evict s))) = length (getFacts s) \<and>
        length (getFacts (addFact s r)) = length (getFacts s)"
    if "maxSize s \<le> int (length (getFacts s))" "1 \<le> maxSize s"
  proof -
    have ne: "length (facts s) \<noteq> 0" using that by (auto simp: getFacts_def)
    show ?thesis
      using that ne by (simp add: getFacts_def facts_addFact length_evict)
  qed
  show ?thesis using A B by blast
qed

theorem C1_capacity_witness:
  "(1::int) \<le> 3 \<and>
   int (length (getFacts (foldl addFact (newWorkingMemory exampleHeap 3 Lru (1/2)) (take 4 [0, 1, 2, 3])))) \<le> 3 \<and>
   maxSize (foldl addFact (newWorkingMemory exampleHeap 3 Lru (1/2)) [0, 1, 2])
     \<le> int (length (getFacts (foldl addFact (newWorkingMemory exampleHeap 3 Lru (1/2)) [0, 1, 2]))) \<and>
   length (getFacts (addFact (foldl addFact (newWorkingMemory exampleHeap 3 Lru (1/2)) [0, 1, 2]) 3)) =
     length (getFacts (foldl addFact (newWorkingMemory exampleHeap 3 Lru (1/2)) [0, 1, 2]))"
proof -
  let ?s = "foldl addFact (newWorkingMemory exampleHeap 3 Lru (1/2)) [0, 1, 2]"
  have full: "maxSize ?s \<le> int (length (getFacts ?s))" "1 \<le> maxSize ?s"
    by (simp_all add: getFacts_def addFact_def pushFact_def newWorkingMemory_def
          updateMetrics_def)
  show ?thesis
    using C1_capacity_invariant [of 3 exampleHeap Lru "1/2" 4 "[0, 1, 2, 3]" ?s 3] full
    by simp
qed

text \<open>
  With capacity 0 the eviction finds nothing to evict and the fact is still appended: the
  buffer then holds one fact.
\<close>

theorem C1_capacity_counterexample:
  "\<not> int (length (getFacts (addFact (newWorkingMemory exampleHeap 0 Lru (1/2)) 0))) \<le> 0"
  by (simp add: getFacts_def addFact_def pushFact_def newWorkingMemory_def updateMetrics_def
        evict_def evictOldest_def)

text \<open>
  C2. With capacity \<open>c \<ge> 1\<close> and strategy weight, after \<open>c + 1\<close> insertions
  into a new working memory the buffer is the first \<open>c\<close> inserted facts without the one
  of minimum weight among those \<open>c\<close> (the lowest index on ties), followed by the fact
  inserted last. The last fact takes no part in the choice of the victim. When the inserted
  objects are pairwise distinct, the victim is absent and all others are present.
\<close>

theorem C2_weight_eviction:
  assumes "1 \<le> c" and "length rs = Suc c"
  shows "getFacts (foldl addFact (newWorkingMemory h (int c) ByWeight th) rs) =
           splice1 (minWeightIndex h (take c rs)) (take c rs) @ [rs ! c] \<and>
         minWeightIndex h (take c rs) < c \<and>
         (\<forall>j<c. weight (h (rs ! minWeightIndex h (take c rs))) \<le> weight (h (rs ! j))) \<and>
         (\<forall>j<minWeightIndex h (take c rs).
             weight (h (rs ! minWeightIndex h (take c rs))) < weight (h (rs ! j))) \<and>
         (distinct rs \<longrightarrow>
            set (getFacts (foldl addFact (newWorkingMemory h (int c) ByWeight th) rs)) =
              set rs - {rs ! minWeightIndex h (take c rs)})"
proof -
  let ?fs = "take c rs"
  let ?m = "minWeightIndex h ?fs"
  have ne: "?fs \<noteq> []" using assms by auto
  have lenfs: "length ?fs = c" using assms by simp
  have m: "?m < c" using minWeightIndex_props(1) [OF ne, of h] lenfs by simp
  have nth: "?fs ! j = rs ! j" if "j < c" for j using that by simp
  have le: "\<forall>j<c. weight (h (rs ! ?m)) \<le> weight (h (rs ! j))"
    using minWeightIndex_props(2) [OF ne, of h] lenfs m nth by auto
  have lt: "\<forall>j<?m. weight (h (rs ! ?m)) < weight (h (rs ! j))"
    using minWeightIndex_props(3) [OF ne, of h] m nth by auto
  have eq: "getFacts (foldl addFact (newWorkingMemory h (int c) ByWeight th) rs) =
           splice1 ?m ?fs @ [rs ! c]"
    unfolding getFacts_def by (rule weight_fill_then_add [OF assms])
  have mem: "set (splice1 ?m ?fs @ [rs ! c]) = set rs - {rs ! ?m}" if d: "distinct rs"
  proof -
    have rs: "rs = ?fs @ [rs ! c]"
      using assms(2) by (metis lessI take_Suc_conv_app_nth take_all order_refl)
    have dfs: "distinct ?fs" using d by simp
    have notin: "rs ! c \<notin> set ?fs" using d rs by (metis distinct_append disjoint_iff list.set_intros(1))
    have "set (splice1 ?m ?fs) = set ?fs - {?fs ! ?m}"
      using set_splice1_distinct [OF dfs] m lenfs by simp
    moreover have "?fs ! ?m = rs ! ?m" using m by simp
    moreover have "rs ! ?m \<in> set ?fs" using m lenfs by (metis nth nth_mem)
    moreover have "set rs = set ?fs \<union> {rs ! c}" by (subst rs) simp
    ultimately show ?thesis using notin by auto
  qed
  show ?thesis using eq m le lt mem by simp
qed

theorem C2_weight_eviction_witness:
  "(1::nat) \<le> 3 \<and> length [0::nat, 1, 2, 3] = Suc 3 \<and> distinct [0::nat, 1, 2, 3] \<and>
   minWeightIndex exampleHeap (take 3 [0, 1, 2, 3]) = 0 \<and>
   getFacts (foldl addFact (newWorkingMemory exampleHeap (int 3) ByWeight (1/2)) [0, 1, 2, 3]) = [1, 2, 3] \<and>
   set (getFacts (foldl addFact (newWorkingMemory exampleHeap (int 3) ByWeight (1/2)) [0, 1, 2, 3])) =
     set [0, 1, 2, 3] - {0}"
proof -
  have m: "minWeightIndex exampleHeap [0, Suc 0, 2] = 0"
    by (simp add: minWeightIndex_def minWeightStep_def exampleHeap_def mkFact_def upt_rec)
  show ?thesis
    using C2_weight_eviction [of 3 "[0, 1, 2, 3]" exampleHeap "1/2"] m
    by (simp add: splice1_def)
qed

text \<open>
  Capacity 1, weights 0.9 then 0.1: the second fact has the minimum weight of the two and
  is the one that stays.
\<close>

theorem C2_weight_eviction_counterexample:
  "getFacts (foldl addFact (newWorkingMemory lightLastHeap 1 ByWeight (1/2)) [0, 1]) = [1] \<and>
   weight (lightLastHeap 1) < weight (lightLastHeap 0)"
  by (simp add: getFacts_def addFact_def pushFact_def newWorkingMemory_def updateMetrics_def
        evict_def evictByWeight_def countEviction_def minWeightIndex_def splice1_def
        lightLastHeap_def mkFact_def)


text \<open>
  C10. Call a working memory well formed when the buffer and the id map agree
  (every buffered fact is in the map under its id, every map entry is a buffered fact under
  that fact's id) and the ids in the buffer are pairwise distinct. A new working memory is
  well formed, and every operation preserves well-formedness, provided that \<^verbatim>\<open>addFact\<close>
  is given a fact whose id is not in the buffer and \<^verbatim>\<open>update(id, item)\<close> an item
  whose id is \<open>id\<close>. In a well-formed memory \<^verbatim>\<open>retrieve(id)\<close> succeeds exactly for
  the ids in the buffer.
\<close>

theorem C10_buffer_map_agreement:
  assumes "wellFormed s"
  shows "consistent s \<and>
         (fact_id (heap s r) \<notin> set (ids s) \<longrightarrow> wellFormed (addFact s r)) \<and>
         ((\<forall>f. item = Some f \<longrightarrow> fact_id (heap s f) = k) \<longrightarrow> wellFormed (snd (update s k item))) \<and>
         wellFormed (delete s k) \<and>
         wellFormed (evictOldest s) \<and>
         wellFormed (evictByWeight s) \<and>
         wellFormed (clear s) \<and>
         wellFormed (consolidate s) \<and>
         wellFormed (newWorkingMemory h c strat th) \<and>
         (fst (retrieve s k) \<noteq> None \<longleftrightarrow> k \<in> set (ids s))"
proof (intro conjI impI)
  show "consistent s" using assms by (simp add: wellFormed_def)
  show "wellFormed (addFact s r)" if "fact_id (heap s r) \<notin> set (ids s)"
    using wellFormed_addFact [OF assms that] .
  show "wellFormed (snd (update s k item))" if "\<forall>f. item = Some f \<longrightarrow> fact_id (heap s f) = k"
    using wellFormed_update [OF assms that] .
  show "wellFormed (delete s k)" using wellFormed_delete [OF assms] .
  show "wellFormed (evictOldest s)" using wellFormed_evictOldest [OF assms] .
  show "wellFormed (evictByWeight s)" using wellFormed_evictByWeight [OF assms] .
  show "wellFormed (clear s)" by (rule wellFormed_clear)
  show "wellFormed (consolidate s)" using wellFormed_consolidate [OF assms] .
  show "wellFormed (newWorkingMemory h c strat th)" by (rule wellFormed_new)
  show "fst (retrieve s k) \<noteq> None \<longleftrightarrow> k \<in> set (ids s)"
    using retrieve_iff_buffered [OF assms] .
qed

theorem C10_buffer_map_agreement_witness:
  "wellFormed exampleMemory \<and>
   fact_id (heap exampleMemory 1) \<notin> set (ids exampleMemory) \<and>
   wellFormed (addFact exampleMemory 1) \<and>
   fact_id (heap exampleMemory 0) = ''A'' \<and>
   wellFormed (snd (update exampleMemory ''A'' (Some 0))) \<and>
   wellFormed (delete exampleMemory ''A'') \<and>
   wellFormed (consolidate exampleMemory) \<and>
   fst (retrieve exampleMemory ''A'') \<noteq> None \<and>
   ''A'' \<in> set (ids exampleMemory)"
proof -
  have wf: "wellFormed exampleMemory"
    unfolding exampleMemory_def
    by (rule wellFormed_addFact [OF wellFormed_new]) (simp add: ids_def newWorkingMemory_def)
  have h: "heap exampleMemory = exampleHeap" by (simp add: exampleMemory_def newWorkingMemory_def)
  have i: "ids exampleMemory = [''A'']"
    by (simp add: exampleMemory_def ids_def addFact_def pushFact_def updateMetrics_def
          newWorkingMemory_def exampleHeap_def mkFact_def)
  have fresh: "fact_id (heap exampleMemory 1) \<notin> set (ids exampleMemory)"
    by (simp add: h i exampleHeap_def mkFact_def)
  have same: "\<forall>f. Some (0::nat) = Some f \<longrightarrow> fact_id (heap exampleMemory f) = ''A''"
    by (simp add: h exampleHeap_def mkFact_def)
  show ?thesis
    using C10_buffer_map_agreement [OF wf, of 1 "Some 0" "''A''" exampleHeap 3 Lru "1/2"] wf fresh same i
    by (simp add: h exampleHeap_def mkFact_def)
qed

text \<open>
  Two facts with the same id: after the second \<^verbatim>\<open>addFact\<close> the first fact is in
  the buffer but the map holds the second under their id; after a third insertion evicts
  the first, the map has no entry for the id although the second fact is still buffered.
\<close>

theorem C10_buffer_map_agreement_counterexample:
  "consistent (addFact (newWorkingMemory twinHeap 2 Lru (1/2)) 0) \<and>
   \<not> consistent (addFact (addFact (newWorkingMemory twinHeap 2 Lru (1/2)) 0) 1) \<and>
   getFacts (foldl addFact (newWorkingMemory twinHeap 2 Lru (1/2)) [0, 1, 2]) = [1, 2] \<and>
   fact_id (twinHeap 1) = ''A'' \<and>
   fst (retrieve (foldl addFact (newWorkingMemory twinHeap 2 Lru (1/2)) [0, 1, 2]) ''A'') = None"
proof -
  have a: "consistent (addFact (newWorkingMemory twinHeap 2 Lru (1/2)) 0)"
    by (simp add: consistent_def addFact_def pushFact_def newWorkingMemory_def updateMetrics_def
          twinHeap_def mkFact_def)
  have b: "\<not> consistent (addFact (addFact (newWorkingMemory twinHeap 2 Lru (1/2)) 0) 1)"
    by (simp add: consistent_def addFact_def pushFact_def newWorkingMemory_def updateMetrics_def
          twinHeap_def mkFact_def)
  have c: "getFacts (foldl addFact (newWorkingMemory twinHeap 2 Lru (1/2)) [0, 1, 2]) = [1, 2]"
    by (simp add: getFacts_def addFact_def pushFact_def newWorkingMemory_def updateMetrics_def
          evict_def evictOldest_def countEviction_def)
  have d: "fst (retrieve (foldl addFact (newWorkingMemory twinHeap 2 Lru (1/2)) [0, 1, 2]) ''A'') = None"
    by (simp add: retrieve_def addFact_def pushFact_def newWorkingMemory_def updateMetrics_def
          evict_def evictOldest_def countEviction_def twinHeap_def mkFact_def)
  show ?thesis using a b c d by (simp add: twinHeap_def mkFact_def)
qed


text \<open>
  C7. When the buffer holds pairwise distinct fact objects, a second
  \<^verbatim>\<open>consolidate\<close> right after a first leaves every fact's weight (the whole object
  store) unchanged: if the maximum weight \<open>m\<close> is positive the first call divides every
  buffered weight by \<open>m\<close>, after which the maximum is 1; if the buffer is empty or the
  maximum is not positive the call changes nothing.
\<close>

theorem C7_consolidate_twice:
  assumes "distinct (facts s)"
  shows "heap (consolidate (consolidate s)) = heap (consolidate s) \<and>
         facts (consolidate (consolidate s)) = facts s \<and>
         (\<forall>m. math_max (map (\<lambda>f. weight (heap s f)) (facts s)) = Some m \<and> 0 < m \<longrightarrow>
            math_max (map (\<lambda>f. weight (heap (consolidate s) f)) (facts s)) = Some 1 \<and>
            (\<forall>f \<in> set (facts s). weight (heap (consolidate s) f) = weight (heap s f) / m)) \<and>
         ((\<forall>m. math_max (map (\<lambda>f. weight (heap s f)) (facts s)) = Some m \<longrightarrow> m \<le> 0) \<longrightarrow>
            consolidate s = s)"
proof -
  let ?ws = "map (\<lambda>f. weight (heap s f)) (facts s)"
  let ?m = "Max (set ?ws)"
  let ?s1 = "consolidate s"
  have facts1: "facts ?s1 = facts s" by (simp add: consolidate_cases)
  have noop: "consolidate s = s" if "\<forall>m. math_max ?ws = Some m \<longrightarrow> m \<le> 0"
    using that by (auto simp: consolidate_def split: option.splits)
  have "heap (consolidate (consolidate s)) = heap (consolidate s) \<and>
         facts (consolidate (consolidate s)) = facts s \<and>
         (\<forall>m. math_max (map (\<lambda>f. weight (heap s f)) (facts s)) = Some m \<and> 0 < m \<longrightarrow>
            math_max (map (\<lambda>f. weight (heap (consolidate s) f)) (facts s)) = Some 1 \<and>
            (\<forall>f \<in> set (facts s). weight (heap (consolidate s) f) = weight (heap s f) / m))"
  proof (cases "facts s \<noteq> [] \<and> 0 < ?m")
    case False
    then have id1: "?s1 = s" by (auto simp: consolidate_cases)
    have "\<not> (math_max ?ws = Some m \<and> 0 < m)" for m
    proof (cases "facts s = []")
      case True
      then show ?thesis by simp
    next
      case ne: False
      then have "math_max ?ws = Some ?m" by (intro math_max_Max) simp
      then show ?thesis using False ne by auto
    qed
    then show ?thesis using id1 by auto
  next
    case True
    then have ne: "facts s \<noteq> []" and pos: "0 < ?m" by simp_all
    have s1: "?s1 = foldl (normalizeStep ?m) s (facts s)"
      using True by (simp add: consolidate_cases)
    have heap1: "heap ?s1 r =
        (if r \<in> set (facts s) then (heap s r)\<lparr> weight := weight (heap s r) / ?m \<rparr> else heap s r)" for r
      unfolding s1 by (rule foldl_normalizeStep_heap [OF assms])
    have ws1: "map (\<lambda>f. weight (heap ?s1 f)) (facts ?s1) = map (\<lambda>x. x / ?m) ?ws"
      by (simp add: facts1 heap1)
    have wsne: "?ws \<noteq> []" using ne by simp
    have max1: "Max (set (map (\<lambda>f. weight (heap ?s1 f)) (facts ?s1))) = 1"
      unfolding ws1 by (rule Max_scaled [OF wsne refl pos])
    have max1': "Max (set (map (\<lambda>f. weight (heap ?s1 f)) (facts s))) = 1"
      using max1 by (simp only: facts1)
    have s2: "consolidate ?s1 = foldl (normalizeStep 1) ?s1 (facts ?s1)"
      using ne by (subst consolidate_cases) (simp add: facts1 max1' del: set_map)
    have d1: "distinct (facts ?s1)" using assms facts1 by simp
    have heap2: "heap (consolidate ?s1) r = heap ?s1 r" for r
      unfolding s2 by (simp add: foldl_normalizeStep_heap [OF d1])
    have mm: "math_max ?ws = Some ?m" using wsne by (rule math_max_Max)
    have mm1: "math_max (map (\<lambda>f. weight (heap ?s1 f)) (facts s)) = Some 1"
      using math_max_Max [of "map (\<lambda>f. weight (heap ?s1 f)) (facts ?s1)"] ne max1 facts1
      by simp
    have scaled: "\<forall>f \<in> set (facts s). weight (heap ?s1 f) = weight (heap s f) / ?m"
      by (simp add: heap1)
    have A: "heap (consolidate ?s1) = heap ?s1" using heap2 by (rule ext)
    have B: "facts (consolidate ?s1) = facts s" by (simp add: consolidate_cases)
    show ?thesis using A B mm mm1 scaled by simp
  qed
  then show ?thesis using noop by blast
qed

theorem C7_consolidate_twice_witness:
  "distinct (facts filledMemory) \<and>
   math_max (map (\<lambda>f. weight (heap filledMemory f)) (facts filledMemory)) = Some (9/10) \<and>
   (0::real) < 9/10 \<and>
   math_max (map (\<lambda>f. weight (heap (consolidate filledMemory) f)) (facts filledMemory)) = Some 1 \<and>
   weight (heap (consolidate filledMemory) 0) = 1/9 \<and>
   heap (consolidate (consolidate filledMemory)) = heap (consolidate filledMemory) \<and>
   distinct (facts (clear filledMemory)) \<and>
   math_max (map (\<lambda>f. weight (heap (clear filledMemory) f)) (facts (clear filledMemory))) = None \<and>
   consolidate (clear filledMemory) = clear filledMemory"
proof -
  have c: "facts (clear filledMemory) = []" by (simp add: clear_def)
  have dc: "distinct (facts (clear filledMemory))" unfolding c by simp
  have mc: "math_max (map (\<lambda>f. weight (heap (clear filledMemory) f)) (facts (clear filledMemory))) = None"
    unfolding c by (simp add: math_max_def)
  from C7_consolidate_twice [OF dc] mc
  have N: "consolidate (clear filledMemory) = clear filledMemory" by simp
  have f: "facts filledMemory = [0, 1, 2]" "heap filledMemory = exampleHeap"
    by (simp_all add: filledMemory_def addFact_def pushFact_def newWorkingMemory_def
          updateMetrics_def)
  have d: "distinct (facts filledMemory)" unfolding f by simp
  have m: "math_max (map (\<lambda>f. weight (heap filledMemory f)) (facts filledMemory)) = Some (9/10)"
    unfolding f by (simp add: math_max_def exampleHeap_def mkFact_def)
  have z: "0 \<in> set (facts filledMemory)" unfolding f by simp
  have w: "weight (heap filledMemory 0) = 1/10"
    unfolding f by (simp add: exampleHeap_def mkFact_def)
  from C7_consolidate_twice [OF d]
  have H: "heap (consolidate (consolidate filledMemory)) = heap (consolidate filledMemory)"
    and M: "math_max (map (\<lambda>f. weight (heap filledMemory f)) (facts filledMemory)) = Some (9/10) \<and>
             (0::real) < 9/10 \<longrightarrow>
            math_max (map (\<lambda>f. weight (heap (consolidate filledMemory) f)) (facts filledMemory)) = Some 1 \<and>
            (\<forall>f \<in> set (facts filledMemory).
                weight (heap (consolidate filledMemory) f) = weight (heap filledMemory f) / (9/10))"
    by blast+
  have pos: "(0::real) < 9/10" by simp
  from M m pos
  have M1: "math_max (map (\<lambda>f. weight (heap (consolidate filledMemory) f)) (facts filledMemory)) = Some 1"
    and W: "\<forall>f \<in> set (facts filledMemory).
                weight (heap (consolidate filledMemory) f) = weight (heap filledMemory f) / (9/10)"
    by blast+
  have "weight (heap (consolidate filledMemory) 0) = 1/9" using W z w by simp
  then show ?thesis using d m pos M1 H dc mc N by blast
qed

text \<open>
  The same object added twice: the loop of \<^verbatim>\<open>consolidate\<close> divides its weight once
  per occurrence, by a maximum computed before the loop. From weight 0.5 the first call
  gives 2 and the second call gives 0.5.
\<close>

theorem C7_consolidate_twice_counterexample:
  "getFacts (foldl addFact (newWorkingMemory exampleHeap 3 Lru (1/2)) [3, 3]) = [3, 3] \<and>
   weight (heap (consolidate (foldl addFact (newWorkingMemory exampleHeap 3 Lru (1/2)) [3, 3])) 3) = 2 \<and>
   weight (heap (consolidate (consolidate (foldl addFact (newWorkingMemory exampleHeap 3 Lru (1/2)) [3, 3]))) 3) = 1/2"
  by (simp add: getFacts_def addFact_def pushFact_def newWorkingMemory_def updateMetrics_def
        consolidate_def math_max_def normalizeStep_def exampleHeap_def mkFact_def)


text \<open>
  C3. An update adds the impact componentwise and clamps each component to
  \<open>[-1, 1]\<close>, whatever the impact. \<^verbatim>\<open>decayEmotions(rate)\<close> multiplies each
  component by \<open>rate\<close> without clamping: it keeps a quadrant that is in \<open>[-1, 1]\<close> there
  when \<open>\<bar>rate\<bar> \<le> 1\<close>. So after every prefix of a sequence of updates and decays on a new
  emotional memory whose decay rates all satisfy \<open>\<bar>rate\<bar> \<le> 1\<close>, every component is in
  \<open>[-1, 1]\<close>. In \<^verbatim>\<open>EmotionalService\<close> both the update and the decay go through
  \<^verbatim>\<open>calculateNewState\<close>, which clamps, so there the range holds for every rate.
\<close>

theorem C3_quadrant_range:
  "currentState (snd (updateState ok m impact)) =
     \<lparr> joy = max (-1) (min 1 (joy (currentState m) + joy impact)),
       calm = max (-1) (min 1 (calm (currentState m) + calm impact)),
       anger = max (-1) (min 1 (anger (currentState m) + anger impact)),
       sadness = max (-1) (min 1 (sadness (currentState m) + sadness impact)) \<rparr> \<and>
   currentState (snd (decayEmotions ok m rate)) =
     \<lparr> joy = joy (currentState m) * rate, calm = calm (currentState m) * rate,
       anger = anger (currentState m) * rate, sadness = sadness (currentState m) * rate \<rparr> \<and>
   inRange (currentState (snd (updateState ok m impact))) \<and>
   (inRange (currentState m) \<and> \<bar>rate\<bar> \<le> 1 \<longrightarrow>
      inRange (currentState (snd (decayEmotions ok m rate)))) \<and>
   ((\<forall>c \<in> set calls. \<bar>rateOf c\<bar> \<le> 1) \<longrightarrow>
      inRange (currentState (foldl mem_call newEmotionalMemory (take n calls)))) \<and>
   inRange (quadrant (calculateNewState st impact)) \<and>
   inRange (quadrant (applyEmotionalDecay st rate)) \<and>
   inRange (quadrant (foldl svc_call newEmotionalState (take n calls)))"
proof -
  have z: "inRange (currentState newEmotionalMemory)" "inRange (quadrant newEmotionalState)"
    by (simp_all add: inRange_def newEmotionalMemory_def newEmotionalState_def)
  have seq: "inRange (currentState (foldl mem_call newEmotionalMemory (take n calls)))"
    if "\<forall>c \<in> set calls. \<bar>rateOf c\<bar> \<le> 1"
  proof (rule inRange_mem_calls [OF z(1)])
    show "\<forall>c \<in> set (take n calls). \<bar>rateOf c\<bar> \<le> 1"
      using that by (meson in_set_takeD)
  qed
  have upd: "currentState (snd (updateState ok m impact)) =
     \<lparr> joy = max (-1) (min 1 (joy (currentState m) + joy impact)),
       calm = max (-1) (min 1 (calm (currentState m) + calm impact)),
       anger = max (-1) (min 1 (anger (currentState m) + anger impact)),
       sadness = max (-1) (min 1 (sadness (currentState m) + sadness impact)) \<rparr>"
    by (simp add: currentState_updateState mem_clampValue_def minQuadrantValue_def
          maxQuadrantValue_def)
  show ?thesis
    using upd currentState_decayEmotions [of ok m rate] inRange_updateState [of ok m impact]
      inRange_decayEmotions [of m rate ok] seq inRange_calculateNewState [of st impact]
      inRange_applyEmotionalDecay [of st rate] inRange_svc_calls [OF z(2), of "take n calls"]
    by blast
qed

theorem C3_quadrant_range_witness:
  "inRange (currentState newEmotionalMemory) \<and> \<bar>1/2 :: real\<bar> \<le> 1 \<and>
   inRange (currentState (snd (decayEmotions True newEmotionalMemory (1/2)))) \<and>
   \<bar>rateOf (True, Update allJoy)\<bar> \<le> 1 \<and> \<bar>rateOf (False, Decay (1/2))\<bar> \<le> 1 \<and>
   inRange (currentState (foldl mem_call newEmotionalMemory
      (take 3 [(True, Update allJoy), (True, Update allJoy), (False, Decay (1/2))]))) \<and>
   joy (currentState (foldl mem_call newEmotionalMemory
      [(True, Update allJoy), (True, Update allJoy), (False, Decay (1/2))])) = 1/2"
proof -
  have z: "inRange (currentState newEmotionalMemory)"
    by (simp add: inRange_def newEmotionalMemory_def)
  have r: "\<forall>c \<in> set [(True, Update allJoy), (True, Update allJoy), (False, Decay (1/2))]. \<bar>rateOf c\<bar> \<le> 1"
    by simp
  have j: "joy (currentState (foldl mem_call newEmotionalMemory
      [(True, Update allJoy), (True, Update allJoy), (False, Decay (1/2))])) = 1/2"
    by (simp add: currentState_decayEmotions currentState_updateState mem_clampValue_def
          minQuadrantValue_def maxQuadrantValue_def newEmotionalMemory_def allJoy_def)
  have h: "\<bar>1/2 :: real\<bar> \<le> 1" by simp
  from C3_quadrant_range [of True newEmotionalMemory allJoy "1/2"
        "[(True, Update allJoy), (True, Update allJoy), (False, Decay (1/2))]" 3]
  have A: "inRange (currentState newEmotionalMemory) \<and> \<bar>1/2 :: real\<bar> \<le> 1 \<longrightarrow>
             inRange (currentState (snd (decayEmotions True newEmotionalMemory (1/2))))"
    and B: "(\<forall>c \<in> set [(True, Update allJoy), (True, Update allJoy), (False, Decay (1/2))]. \<bar>rateOf c\<bar> \<le> 1) \<longrightarrow>
             inRange (currentState (foldl mem_call newEmotionalMemory
               (take 3 [(True, Update allJoy), (True, Update allJoy), (False, Decay (1/2))])))"
    by blast+
  have r': "\<bar>rateOf (True, Update allJoy)\<bar> \<le> 1" "\<bar>rateOf (False, Decay (1/2))\<bar> \<le> 1"
    by simp_all
  show ?thesis using A B z r r' j h by blast
qed

text \<open>
  From the zero state, an update by joy 1 followed by \<^verbatim>\<open>decayEmotions(2)\<close> leaves joy at 2.
\<close>

theorem C3_quadrant_range_counterexample:
  "joy (currentState (foldl mem_call newEmotionalMemory [(True, Update allJoy), (True, Decay 2)])) = 2 \<and>
   \<not> inRange (currentState (foldl mem_call newEmotionalMemory [(True, Update allJoy), (True, Decay 2)]))"
  by (simp add: currentState_decayEmotions currentState_updateState mem_clampValue_def
        minQuadrantValue_def maxQuadrantValue_def newEmotionalMemory_def allJoy_def inRange_def)


text \<open>
  C4. Whenever \<^verbatim>\<open>strengthenPattern\<close> finds the pattern id in the map (after the
  initialisation has gone through), the pattern's weight in the map afterwards is the
  minimum of 1 and the decayed weight plus the reinforced amount, hence at most 1: for
  every amount, with or without an emotional context, and whether or not the database
  update that follows succeeds.
\<close>

theorem C4_weight_bound:
  assumes "ensureInitialized fails s = (None, s1)" and "patterns s1 patternId = Some p"
  shows "\<exists>p'. patterns (snd (strengthenPattern fails now stamp s patternId amount emotionalContext))
               patternId = Some p' \<and>
              pweight p' \<le> 1 \<and>
              pweight p' =
                min 1 (pweight p * exp (- (now - lastAccessed p) / (30 * 24 * 60 * 60 * 1000)) +
                       amount * (case emotionalContext of
                                   None \<Rightarrow> 1
                                 | Some ctx \<Rightarrow> 1 + calculateEmotionalSimilarity ctx p))"
  using assms
  by (cases emotionalContext)
     (simp_all add: strengthenPattern_def Let_def calculateEmotionalSimilarity_def
        diff_divide_distrib)


theorem C4_weight_bound_witness:
  "ensureInitialized noFailure exampleStore = (None, exampleStore) \<and>
   patterns exampleStore ''p1'' = Some examplePattern \<and>
   (\<exists>p'. patterns (snd (strengthenPattern noFailure thirtyDays thirtyDays exampleStore ''p1'' 2
                 (Some allJoy))) ''p1'' = Some p' \<and>
         pweight p' \<le> 1)"
proof -
  have i: "ensureInitialized noFailure exampleStore = (None, exampleStore)"
    by (simp add: ensureInitialized_def exampleStore_def)
  have p: "patterns exampleStore ''p1'' = Some examplePattern"
    by (simp add: exampleStore_def)
  from C4_weight_bound [OF i p, of thirtyDays thirtyDays 2 "Some allJoy"]
  show ?thesis using i p by blast
qed

text \<open>
  C8. For every store, pattern id and pattern found under that id with weight 0.5 and
  \<^verbatim>\<open>lastAccessed\<close> exactly thirty days before the clock reading of the call,
  \<^verbatim>\<open>strengthenPattern\<close> with amount 0.3 and no emotional context: the decay factor is
  \<open>exp (-1)\<close>, which is 0.3679 to four decimals; the decayed weight \<open>0.5 * exp (-1)\<close>
  is 0.184 to three decimals; and the pattern in the map afterwards is the old one with
  weight \<open>min 1 (0.5 * exp (-1) + 0.3)\<close>, which is 0.484 to three decimals, and the new
  time stamp. The database row of that id gets the same weight when the update goes
  through.
\<close>

theorem C8_strengthen_scenario:
  assumes "ensureInitialized fails s = (None, s1)"
    and "patterns s1 patternId = Some p"
    and "pweight p = 1/2"
    and "now - lastAccessed p = thirtyDays"
  shows "exp (- (now - lastAccessed p) / (30 * 24 * 60 * 60 * 1000)) = exp (- 1) \<and>
         \<bar>exp (- 1 :: real) - 0.3679\<bar> \<le> 0.00005 \<and>
         \<bar>pweight p * exp (- 1) - 0.184\<bar> \<le> 0.0005 \<and>
         patterns (snd (strengthenPattern fails now stamp s patternId (3/10) None)) patternId =
           Some (p\<lparr> pweight := min 1 (pweight p * exp (- 1) + 3/10), lastAccessed := stamp \<rparr>) \<and>
         \<bar>min 1 (pweight p * exp (- 1) + 3/10) - 0.484\<bar> \<le> 0.0005 \<and>
         (\<not> fails UpdatePattern \<longrightarrow>
            patternsTable (snd (strengthenPattern fails now stamp s patternId (3/10) None)) =
              db_updatePattern (patternsTable s1)
                (p\<lparr> pweight := min 1 (pweight p * exp (- 1) + 3/10), lastAccessed := stamp \<rparr>))"
proof -
  have e: "now - lastAccessed p = 2592000000"
    using assms(4) by (simp add: thirtyDays_def)
  have d: "exp (- (now - lastAccessed p) / (30 * 24 * 60 * 60 * 1000)) = exp (- 1 :: real)"
    unfolding e by simp
  have run: "patterns (snd (strengthenPattern fails now stamp s patternId (3/10) None)) patternId =
           Some (p\<lparr> pweight := min 1 (pweight p * exp (- 1) + 3/10), lastAccessed := stamp \<rparr>)"
    using assms(1,2) by (simp add: strengthenPattern_def Let_def e)
  have tab: "patternsTable (snd (strengthenPattern fails now stamp s patternId (3/10) None)) =
              db_updatePattern (patternsTable s1)
                (p\<lparr> pweight := min 1 (pweight p * exp (- 1) + 3/10), lastAccessed := stamp \<rparr>)"
    if "\<not> fails UpdatePattern"
    using assms(1,2) that by (simp add: strengthenPattern_def Let_def e)
  have lo: "36785 / 100000 \<le> exp (- 1 :: real)" and hi: "exp (- 1 :: real) \<le> 36795 / 100000"
    using exp_minus_one_bounds by simp_all
  have a1: "\<bar>exp (- 1 :: real) - 0.3679\<bar> \<le> 0.00005"
    unfolding abs_le_iff using lo hi by auto
  have a2: "\<bar>pweight p * exp (- 1) - 0.184\<bar> \<le> 0.0005"
    unfolding assms(3) abs_le_iff using lo hi by auto
  have m: "min 1 (pweight p * exp (- 1) + 3/10) = 1/2 * exp (- 1 :: real) + 3/10"
    unfolding assms(3) using hi by (auto simp: min_def)
  have a3: "\<bar>min 1 (pweight p * exp (- 1) + 3/10) - 0.484\<bar> \<le> 0.0005"
    unfolding m abs_le_iff using lo hi by auto
  show ?thesis using d a1 a2 run a3 tab by blast
qed

theorem C8_strengthen_scenario_witness:
  "ensureInitialized noFailure exampleStore = (None, exampleStore) \<and>
   patterns exampleStore ''p1'' = Some examplePattern \<and>
   pweight examplePattern = 1/2 \<and>
   thirtyDays - lastAccessed examplePattern = thirtyDays \<and>
   \<not> noFailure UpdatePattern \<and>
   patterns (snd (strengthenPattern noFailure thirtyDays thirtyDays exampleStore ''p1'' (3/10) None))
     ''p1'' =
     Some (examplePattern\<lparr> pweight := min 1 (pweight examplePattern * exp (- 1) + 3/10),
                            lastAccessed := thirtyDays \<rparr>) \<and>
   \<bar>min 1 (pweight examplePattern * exp (- 1) + 3/10) - 0.484\<bar> \<le> 0.0005 \<and>
   patternsTable (snd (strengthenPattern noFailure thirtyDays thirtyDays exampleStore ''p1'' (3/10) None)) =
     [examplePattern\<lparr> pweight := min 1 (pweight examplePattern * exp (- 1) + 3/10),
                       lastAccessed := thirtyDays \<rparr>]"
proof -
  have i: "ensureInitialized noFailure exampleStore = (None, exampleStore)"
    by (simp add: ensureInitialized_def exampleStore_def)
  have p: "patterns exampleStore ''p1'' = Some examplePattern"
    by (simp add: exampleStore_def)
  have w: "pweight examplePattern = 1/2" by (simp add: examplePattern_def)
  have t: "thirtyDays - lastAccessed examplePattern = thirtyDays"
    by (simp add: examplePattern_def)
  have n: "\<not> noFailure UpdatePattern" by (simp add: noFailure_def)
  have u: "db_updatePattern (patternsTable exampleStore) (examplePattern\<lparr> pweight := x, lastAccessed := y \<rparr>) =
      [examplePattern\<lparr> pweight := x, lastAccessed := y \<rparr>]" for x y
    by (simp add: db_updatePattern_def exampleStore_def examplePattern_def)
  from C8_strengthen_scenario [OF i p w t, of thirtyDays] n
  have A: "patterns (snd (strengthenPattern noFailure thirtyDays thirtyDays exampleStore ''p1'' (3/10) None))
     ''p1'' =
     Some (examplePattern\<lparr> pweight := min 1 (pweight examplePattern * exp (- 1) + 3/10),
                            lastAccessed := thirtyDays \<rparr>)"
    and B: "\<bar>min 1 (pweight examplePattern * exp (- 1) + 3/10) - 0.484\<bar> \<le> 0.0005"
    and C: "patternsTable (snd (strengthenPattern noFailure thirtyDays thirtyDays exampleStore ''p1'' (3/10) None)) =
              db_updatePattern (patternsTable exampleStore)
                (examplePattern\<lparr> pweight := min 1 (pweight examplePattern * exp (- 1) + 3/10),
                                  lastAccessed := thirtyDays \<rparr>)"
    by blast+
  show ?thesis using i p w t n A B C [unfolded u] by blast
qed

text \<open>
  C6. \<^verbatim>\<open>findSimilarPatterns\<close> with an emotional context writes the rescaled
  patterns to the in-process map. The table holds one pattern of weight 0.5 and
  signature joy 1; \<^verbatim>\<open>findSimilarPatterns\<close> with the context joy 1 returns it with weight
  0.625, leaves the table as it was, and sets the rescaled copy in the in-process map. A
  following \<^verbatim>\<open>strengthenPattern\<close> with amount 0 and no elapsed time reads the map and
  writes weight 0.625 to the table.
\<close>

theorem C6_reweighting_reaches_cache:
  "fst (findSimilarPatterns noFailure [''f1''] exampleStore (Some allJoy)) =
     Inr [examplePattern\<lparr> pweight := 5/8 \<rparr>] \<and>
   patterns (snd (findSimilarPatterns noFailure [''f1''] exampleStore (Some allJoy))) ''p1'' =
     Some (examplePattern\<lparr> pweight := 5/8 \<rparr>) \<and>
   patternsTable (snd (findSimilarPatterns noFailure [''f1''] exampleStore (Some allJoy))) =
     [examplePattern] \<and>
   pweight examplePattern = 1/2 \<and>
   patternsTable (snd (strengthenPattern noFailure 0 0
       (snd (findSimilarPatterns noFailure [''f1''] exampleStore (Some allJoy))) ''p1'' 0 None)) =
     [examplePattern\<lparr> pweight := 5/8 \<rparr>]"
proof -
  let ?r = "findSimilarPatterns noFailure [''f1''] exampleStore (Some allJoy)"
  have r: "?r = (Inr [examplePattern\<lparr> pweight := 5/8 \<rparr>],
                 exampleStore\<lparr> patterns := [''p1'' \<mapsto> examplePattern\<lparr> pweight := 5/8 \<rparr>] \<rparr>)"
    by (simp add: findSimilarPatterns_def ensureInitialized_def exampleStore_def noFailure_def
          db_findPatternsWithFacts_def cachePatterns_def calculateEmotionalSimilarity_def
          examplePattern_def allJoy_def Let_def)
  have s: "patternsTable (snd (strengthenPattern noFailure 0 0 (snd ?r) ''p1'' 0 None)) =
     [examplePattern\<lparr> pweight := 5/8 \<rparr>]"
    unfolding r
    by (simp add: strengthenPattern_def ensureInitialized_def exampleStore_def noFailure_def
          db_updatePattern_def examplePattern_def Let_def)
  show ?thesis
    unfolding r using s [unfolded r] by (simp add: exampleStore_def examplePattern_def)
qed





end
